theory Spec2Isabelle
  imports Complex_Main "HOL-Library.Multiset"
begin

section \<open>Random source\<close>

text \<open>
  The scene and the engine draw every random number from \<^verbatim>\<open>Math.random()\<close>, a value
  in \<open>[0, 1)\<close>. The source of randomness is an infinite sequence of draws; a draw
  returns the head and the remaining sequence. \<open>rng_ok\<close> is the contract of
  \<^verbatim>\<open>Math.random()\<close>.
\<close>

type_synonym rng = "nat \<Rightarrow> real"

definition math_random :: "rng \<Rightarrow> real \<times> rng" where
  "math_random g = (g 0, \<lambda>n. g (Suc n))"

definition rng_ok :: "rng \<Rightarrow> bool" where
  "rng_ok g = (\<forall>n. 0 \<le> g n \<and> g n < 1)"

text \<open>
  JavaScript numbers are IEEE 754 doubles: the result of an arithmetic operation is the
  exact result rounded to the nearest number with a 53-bit significand, ties to the one
  with an even significand. \<open>binade a\<close> is the exponent \<open>e\<close> with
  \<open>2^e \<le> a < 2^(e+1)\<close>, kept within \<open>-1022\<close> (below it the spacing of doubles no longer
  shrinks) and \<open>52\<close>: the spacing at \<open>a\<close> is \<open>2^(e-52)\<close>. Magnitudes of \<open>2^53\<close> and
  more, where doubles no longer hold every integer, do not occur in the scene (the grid
  is 50 by 50 tiles); there the spacing stays 1.
\<close>

fun binade_up :: "nat \<Rightarrow> real \<Rightarrow> int" where
  "binade_up 0 a = 0"
| "binade_up (Suc k) a = (if a < 2 then 0 else 1 + binade_up k (a / 2))"

fun binade_down :: "nat \<Rightarrow> real \<Rightarrow> int" where
  "binade_down 0 a = 0"
| "binade_down (Suc k) a = (if 1 \<le> a then 0 else binade_down k (2 * a) - 1)"

definition binade :: "real \<Rightarrow> int" where
  "binade a = (if 1 \<le> a then binade_up 52 a else binade_down 1022 a)"

definition round_even :: "real \<Rightarrow> int" where
  "round_even y =
     (let f = \<lfloor>y\<rfloor>; d = y - real_of_int f
      in if d < 1 / 2 then f
         else if 1 / 2 < d then f + 1
         else if even f then f else f + 1)"

definition round_double :: "real \<Rightarrow> real" where
  "round_double x =
     (if x = 0 then 0
      else
        (let s = 2 ^ nat (52 - binade \<bar>x\<bar>)
         in sgn x * real_of_int (round_even (\<bar>x\<bar> * s)) / s))"

text \<open>
  \<^verbatim>\<open>Phaser.Math.Between(min, max)\<close> is
  \<^verbatim>\<open>Math.floor(Math.random() * (max - min + 1) + min)\<close>: the product and the sum are
  each rounded to a double before the floor is taken.
\<close>

definition math_between :: "int \<Rightarrow> int \<Rightarrow> rng \<Rightarrow> int \<times> rng" where
  "math_between lo hi g =
     (let (r, g') = math_random g
      in (\<lfloor>round_double (round_double (r * real_of_int (hi - lo + 1)) + real_of_int lo)\<rfloor>,
          g'))"

section \<open>Rooms of the generated dungeon\<close>

text \<open>
  A room of the dungeon library: position, size and the door locations (relative to the
  room's origin) that \<^verbatim>\<open>getDoorLocations()\<close> returns. The library derives
  \<^verbatim>\<open>left, right, top, bottom, centerX, centerY\<close> from position and size.
\<close>

record room =
  room_x :: int
  room_y :: int
  room_width :: int
  room_height :: int
  room_doors :: "(int \<times> int) list"

definition room_left :: "room \<Rightarrow> int" where
  "room_left r = room_x r"

definition room_right :: "room \<Rightarrow> int" where
  "room_right r = room_x r + (room_width r - 1)"

definition room_top :: "room \<Rightarrow> int" where
  "room_top r = room_y r"

definition room_bottom :: "room \<Rightarrow> int" where
  "room_bottom r = room_y r + (room_height r - 1)"

definition room_centerX :: "room \<Rightarrow> int" where
  "room_centerX r = room_x r + room_width r div 2"

definition room_centerY :: "room \<Rightarrow> int" where
  "room_centerY r = room_y r + room_height r div 2"

definition in_room :: "room \<Rightarrow> int \<times> int \<Rightarrow> bool" where
  "in_room r c = (room_left r \<le> fst c \<and> fst c \<le> room_right r \<and>
                  room_top r \<le> snd c \<and> snd c \<le> room_bottom r)"

record dungeon =
  dwidth :: int
  dheight :: int
  rooms :: "room list"

section \<open>Tile layers of the engine\<close>

text \<open>
  A tilemap layer holds one tile per cell of \<open>[0, lwidth) \<times> [0, lheight)\<close>; a tile has
  an index (\<open>-1\<close> is the empty tile) and a collision flag. The layer also keeps the
  indexes declared colliding and the callbacks registered per tile index.
\<close>

type_synonym cell = "int \<times> int"

datatype callback = ReachStairs | Noop

record layer =
  lwidth :: int
  lheight :: int
  tiles :: "cell \<Rightarrow> int"
  collides :: "cell \<Rightarrow> bool"
  collideIndexes :: "int list"
  callbacks :: "int \<rightharpoonup> callback"

definition isInLayerBounds :: "int \<Rightarrow> int \<Rightarrow> layer \<Rightarrow> bool" where
  "isInLayerBounds tileX tileY l =
     (0 \<le> tileX \<and> tileX < lwidth l \<and> 0 \<le> tileY \<and> tileY < lheight l)"

definition createBlankLayer :: "int \<Rightarrow> int \<Rightarrow> layer" where
  "createBlankLayer w h =
     \<lparr>lwidth = w, lheight = h, tiles = (\<lambda>c. - 1), collides = (\<lambda>c. False),
      collideIndexes = [], callbacks = Map.empty\<rparr>"

text \<open>\<^verbatim>\<open>layer.fill(index)\<close> over the whole layer.\<close>

definition fill :: "int \<Rightarrow> layer \<Rightarrow> layer" where
  "fill idx l =
     l\<lparr>tiles := (\<lambda>c. if isInLayerBounds (fst c) (snd c) l then idx else tiles l c),
       collides := (\<lambda>c. if isInLayerBounds (fst c) (snd c) l
                         then idx \<in> set (collideIndexes l) else collides l c)\<rparr>"

text \<open>
  \<^verbatim>\<open>putTileAt(tile, tileX, tileY)\<close>: nothing is written out of the layer's bounds; the
  collision flag of the written tile follows the layer's colliding indexes.
\<close>

definition putTileAt :: "int \<Rightarrow> int \<Rightarrow> int \<Rightarrow> layer \<Rightarrow> layer" where
  "putTileAt idx tileX tileY l =
     (if \<not> isInLayerBounds tileX tileY l then l
      else l\<lparr>tiles := (tiles l)((tileX, tileY) := idx),
             collides := (collides l)((tileX, tileY) := idx \<in> set (collideIndexes l))\<rparr>)"

text \<open>
  \<^verbatim>\<open>putTilesAt(tilesArray, tileX, tileY)\<close> stamps a two-dimensional pattern with its
  top-left entry at the anchor, row by row; the width is that of the first row. A flat
  array is one row (the engine wraps it), so the tile table holds every pattern as a list
  of rows. Every row is expected to be as long as the first.
\<close>

fun put_row :: "int list \<Rightarrow> int \<Rightarrow> int \<Rightarrow> layer \<Rightarrow> layer" where
  "put_row [] tileX tileY l = l"
| "put_row (t # ts) tileX tileY l = put_row ts (tileX + 1) tileY (putTileAt t tileX tileY l)"

fun put_rows :: "nat \<Rightarrow> int list list \<Rightarrow> int \<Rightarrow> int \<Rightarrow> layer \<Rightarrow> layer" where
  "put_rows w [] tileX tileY l = l"
| "put_rows w (row # rest) tileX tileY l =
     put_rows w rest tileX (tileY + 1) (put_row (take w row) tileX tileY l)"

definition putTilesAt :: "int list list \<Rightarrow> int \<Rightarrow> int \<Rightarrow> layer \<Rightarrow> layer" where
  "putTilesAt tilesArray tileX tileY l =
     (case tilesArray of
        [] \<Rightarrow> l
      | row0 # rest \<Rightarrow> put_rows (length row0) tilesArray tileX tileY l)"

text \<open>
  \<^verbatim>\<open>GetTilesWithin\<close>: the cells of a rectangle clipped to the layer, in row-major
  order.
\<close>

definition getTilesWithin :: "int \<Rightarrow> int \<Rightarrow> int \<Rightarrow> int \<Rightarrow> layer \<Rightarrow> cell list" where
  "getTilesWithin tileX tileY w h l =
     (let w1 = (if tileX < 0 then w + tileX else w);
          x1 = (if tileX < 0 then 0 else tileX);
          h1 = (if tileY < 0 then h + tileY else h);
          y1 = (if tileY < 0 then 0 else tileY);
          w2 = (if x1 + w1 > lwidth l then max (lwidth l - x1) 0 else w1);
          h2 = (if y1 + h1 > lheight l then max (lheight l - y1) 0 else h1)
      in concat (map (\<lambda>ty. map (\<lambda>tx. (tx, ty)) [x1..x1 + w2 - 1]) [y1..y1 + h2 - 1]))"

text \<open>
  A weighted alternative of the tile table: \<^verbatim>\<open>{ index, weight }\<close>, where the index is
  one tile index or an array of them.
\<close>

datatype tile_choice = Single int | OneOf "int list"

record weighted_index =
  w_index :: tile_choice
  w_weight :: real

text \<open>
  The inner loop of \<^verbatim>\<open>weightedRandomize\<close>: the first alternative whose running sum of
  weights reaches \<open>rand\<close>; an array index draws once more. \<open>-1\<close> when none is reached.
  Sums and products are taken exactly: rounding them to doubles changes only which
  alternative a draw at the boundary between two alternatives selects.
\<close>

fun pick_weighted :: "weighted_index list \<Rightarrow> real \<Rightarrow> real \<Rightarrow> rng \<Rightarrow> int \<times> rng" where
  "pick_weighted [] rand acc g = (- 1, g)"
| "pick_weighted (wi # ws) rand acc g =
     (let sum' = acc + w_weight wi
      in if rand \<le> sum'
         then (case w_index wi of
                 Single i \<Rightarrow> (i, g)
               | OneOf chosen \<Rightarrow>
                   (let (r, g') = math_random g
                    in (chosen ! nat \<lfloor>r * real (length chosen)\<rfloor>, g')))
         else pick_weighted ws rand sum' g)"

fun randomize_tiles ::
  "weighted_index list \<Rightarrow> real \<Rightarrow> cell list \<Rightarrow> layer \<times> rng \<Rightarrow> layer \<times> rng" where
  "randomize_tiles wis weightTotal [] lg = lg"
| "randomize_tiles wis weightTotal (c # cs) lg =
     (let (r, g1) = math_random (snd lg);
          (randomIndex, g2) = pick_weighted wis (r * weightTotal) 0 g1
      in randomize_tiles wis weightTotal cs
           ((fst lg)\<lparr>tiles := (tiles (fst lg))(c := randomIndex)\<rparr>, g2))"

definition weightedRandomize ::
  "weighted_index list \<Rightarrow> int \<Rightarrow> int \<Rightarrow> int \<Rightarrow> int \<Rightarrow> layer \<times> rng \<Rightarrow> layer \<times> rng" where
  "weightedRandomize weightedIndexes tileX tileY w h lg =
     (let cells = getTilesWithin tileX tileY w h (fst lg);
          weightTotal = sum_list (map w_weight weightedIndexes)
      in if weightTotal \<le> 0 then lg
         else randomize_tiles weightedIndexes weightTotal cells lg)"

text \<open>
  \<^verbatim>\<open>setCollisionByExclusion(indexes)\<close>: every tile of the layer whose index is not
  listed is made colliding, and its index is recorded as a colliding index.
\<close>

definition layer_cells :: "layer \<Rightarrow> cell list" where
  "layer_cells l =
     concat (map (\<lambda>ty. map (\<lambda>tx. (tx, ty)) [0..lwidth l - 1]) [0..lheight l - 1])"

definition setCollisionByExclusion :: "int list \<Rightarrow> layer \<Rightarrow> layer" where
  "setCollisionByExclusion indexes l =
     l\<lparr>collides := (\<lambda>c. if isInLayerBounds (fst c) (snd c) l \<and> tiles l c \<notin> set indexes
                         then True else collides l c),
       collideIndexes :=
         fold (\<lambda>c acc. if tiles l c \<notin> set indexes \<and> tiles l c \<notin> set acc
                        then acc @ [tiles l c] else acc)
              (layer_cells l) (collideIndexes l)\<rparr>"

definition setTileIndexCallback :: "int \<Rightarrow> callback \<Rightarrow> layer \<Rightarrow> layer" where
  "setTileIndexCallback idx cb l = l\<lparr>callbacks := (callbacks l)(idx \<mapsto> cb)\<rparr>"

section \<open>The tile table\<close>

text \<open>
  The table \<^verbatim>\<open>TILES\<close> of tile roles: single indexes, weighted alternatives and
  multi-tile patterns. It is configuration; every operation takes it as a parameter.
\<close>

record tile_table =
  BLANK :: int
  WALL_TOP_LEFT :: int
  WALL_TOP_RIGHT :: int
  WALL_BOTTOM_RIGHT :: int
  WALL_BOTTOM_LEFT :: int
  WALL_TOP :: "weighted_index list"
  WALL_LEFT :: "weighted_index list"
  WALL_RIGHT :: "weighted_index list"
  WALL_BOTTOM :: "weighted_index list"
  FLOOR :: "weighted_index list"
  POT :: "weighted_index list"
  DOOR_TOP :: "int list list"
  DOOR_LEFT :: "int list list"
  DOOR_BOTTOM :: "int list list"
  DOOR_RIGHT :: "int list list"
  CHEST :: int
  STAIRS :: int
  TOWER :: "int list list"

text \<open>The tile indexes a weighted list can produce.\<close>

fun choice_indexes :: "tile_choice \<Rightarrow> int set" where
  "choice_indexes (Single i) = {i}"
| "choice_indexes (OneOf chosen) = set chosen"

definition weighted_indexes :: "weighted_index list \<Rightarrow> int set" where
  "weighted_indexes wis = (\<Union>wi \<in> set wis. choice_indexes (w_index wi))"

text \<open>
  A weighted list the engine can draw from: a positive total weight, and no empty array
  of indexes.
\<close>

fun choice_ok :: "tile_choice \<Rightarrow> bool" where
  "choice_ok (Single i) = True"
| "choice_ok (OneOf chosen) = (chosen \<noteq> [])"

definition weighted_ok :: "weighted_index list \<Rightarrow> bool" where
  "weighted_ok wis =
     (0 < sum_list (map w_weight wis) \<and> list_all (\<lambda>wi. choice_ok (w_index wi)) wis)"

text \<open>
  An example of a tile table, for running the definitions on concrete inputs.
\<close>

definition example_tiles :: tile_table where
  "example_tiles =
     \<lparr>BLANK = 20,
      WALL_TOP_LEFT = 3, WALL_TOP_RIGHT = 4, WALL_BOTTOM_RIGHT = 23, WALL_BOTTOM_LEFT = 22,
      WALL_TOP = [\<lparr>w_index = Single 39, w_weight = 4\<rparr>,
                  \<lparr>w_index = OneOf [57, 58, 59], w_weight = 1\<rparr>],
      WALL_LEFT = [\<lparr>w_index = Single 21, w_weight = 4\<rparr>,
                   \<lparr>w_index = OneOf [76, 95, 114], w_weight = 1\<rparr>],
      WALL_RIGHT = [\<lparr>w_index = Single 19, w_weight = 4\<rparr>,
                    \<lparr>w_index = OneOf [77, 96, 115], w_weight = 1\<rparr>],
      WALL_BOTTOM = [\<lparr>w_index = Single 1, w_weight = 4\<rparr>,
                     \<lparr>w_index = OneOf [78, 79, 80], w_weight = 1\<rparr>],
      FLOOR = [\<lparr>w_index = Single 6, w_weight = 9\<rparr>,
               \<lparr>w_index = OneOf [7, 8, 26], w_weight = 1\<rparr>],
      POT = [\<lparr>w_index = Single 13, w_weight = 1\<rparr>,
             \<lparr>w_index = Single 32, w_weight = 1\<rparr>,
             \<lparr>w_index = Single 51, w_weight = 1\<rparr>],
      DOOR_TOP = [[40, 6, 38]],
      DOOR_LEFT = [[40], [6], [2]],
      DOOR_BOTTOM = [[2, 6, 0]],
      DOOR_RIGHT = [[38], [6], [0]],
      CHEST = 166,
      STAIRS = 81,
      TOWER = [[186], [205]]\<rparr>"

section \<open>Painting the ground layer\<close>

text \<open>Floor, corners and walls of one room (the first half of the loop body).\<close>

definition paint_walls :: "tile_table \<Rightarrow> room \<Rightarrow> layer \<times> rng \<Rightarrow> layer \<times> rng" where
  "paint_walls T r lg =
     (let lg1 = weightedRandomize (FLOOR T) (room_x r + 1) (room_y r + 1)
                  (room_width r - 2) (room_height r - 2) lg;
          l2 = putTileAt (WALL_TOP_LEFT T) (room_left r) (room_top r) (fst lg1);
          l3 = putTileAt (WALL_TOP_RIGHT T) (room_right r) (room_top r) l2;
          l4 = putTileAt (WALL_BOTTOM_RIGHT T) (room_right r) (room_bottom r) l3;
          l5 = putTileAt (WALL_BOTTOM_LEFT T) (room_left r) (room_bottom r) l4;
          lg6 = weightedRandomize (WALL_TOP T) (room_left r + 1) (room_top r)
                  (room_width r - 2) 1 (l5, snd lg1);
          lg7 = weightedRandomize (WALL_BOTTOM T) (room_left r + 1) (room_bottom r)
                  (room_width r - 2) 1 lg6;
          lg8 = weightedRandomize (WALL_LEFT T) (room_left r) (room_top r + 1)
                  1 (room_height r - 2) lg7
      in weightedRandomize (WALL_RIGHT T) (room_right r) (room_top r + 1)
           1 (room_height r - 2) lg8)"

text \<open>One door of a room: the edge is found by the chain of comparisons of the source.\<close>

definition paint_door :: "tile_table \<Rightarrow> room \<Rightarrow> int \<times> int \<Rightarrow> layer \<Rightarrow> layer" where
  "paint_door T r d l =
     (if snd d = 0 then
        putTilesAt (DOOR_TOP T) (room_x r + fst d - 1) (room_y r + snd d) l
      else if snd d = room_height r - 1 then
        putTilesAt (DOOR_BOTTOM T) (room_x r + fst d - 1) (room_y r + snd d) l
      else if fst d = 0 then
        putTilesAt (DOOR_LEFT T) (room_x r + fst d) (room_y r + snd d - 1) l
      else if fst d = room_width r - 1 then
        putTilesAt (DOOR_RIGHT T) (room_x r + fst d) (room_y r + snd d - 1) l
      else l)"

definition paint_room :: "tile_table \<Rightarrow> room \<Rightarrow> layer \<times> rng \<Rightarrow> layer \<times> rng" where
  "paint_room T r lg =
     (let lg1 = paint_walls T r lg
      in (fold (paint_door T r) (room_doors r) (fst lg1), snd lg1))"

definition paint_rooms :: "tile_table \<Rightarrow> room list \<Rightarrow> layer \<times> rng \<Rightarrow> layer \<times> rng" where
  "paint_rooms T rs lg = fold (paint_room T) rs lg"

subsection \<open>The door rule as the specification words it\<close>

text \<open>
  The specification classifies a door by its local coordinates and the room's size, with
  the priority top, bottom, left, right, and anchors the pattern one cell before the
  door along the axis of the edge.
\<close>

datatype edge = EdgeTop | EdgeBottom | EdgeLeft | EdgeRight

definition spec_door_edge :: "int \<Rightarrow> int \<Rightarrow> int \<Rightarrow> int \<Rightarrow> edge option" where
  "spec_door_edge dx dy w h =
     (if dy = 0 then Some EdgeTop
      else if dy = h - 1 then Some EdgeBottom
      else if dx = 0 then Some EdgeLeft
      else if dx = w - 1 then Some EdgeRight
      else None)"

fun spec_door_anchor :: "edge \<Rightarrow> cell \<Rightarrow> cell" where
  "spec_door_anchor EdgeTop (px, py) = (px - 1, py)"
| "spec_door_anchor EdgeBottom (px, py) = (px - 1, py)"
| "spec_door_anchor EdgeLeft (px, py) = (px, py - 1)"
| "spec_door_anchor EdgeRight (px, py) = (px, py - 1)"

fun door_pattern :: "tile_table \<Rightarrow> edge \<Rightarrow> int list list" where
  "door_pattern T EdgeTop = DOOR_TOP T"
| "door_pattern T EdgeBottom = DOOR_BOTTOM T"
| "door_pattern T EdgeLeft = DOOR_LEFT T"
| "door_pattern T EdgeRight = DOOR_RIGHT T"

definition spec_paint_door :: "tile_table \<Rightarrow> room \<Rightarrow> int \<times> int \<Rightarrow> layer \<Rightarrow> layer" where
  "spec_paint_door T r d l =
     (case spec_door_edge (fst d) (snd d) (room_width r) (room_height r) of
        None \<Rightarrow> l
      | Some e \<Rightarrow>
          (let a = spec_door_anchor e (room_x r + fst d, room_y r + snd d)
           in putTilesAt (door_pattern T e) (fst a) (snd a) l))"

section \<open>Classifying the rooms\<close>

text \<open>
  \<^verbatim>\<open>Phaser.Utils.Array.RemoveRandomElement(array)\<close>: the element at index
  \<^verbatim>\<open>Math.floor(Math.random() * array.length)\<close> is spliced out and returned; nothing is
  removed (and \<^verbatim>\<open>undefined\<close> is returned) when the index is not below the length.
  The product is taken exactly here: rounding it to a double changes the index only for
  a draw at the boundary between two indexes.
\<close>

definition removeRandomElement :: "'a list \<Rightarrow> rng \<Rightarrow> ('a option \<times> 'a list) \<times> rng" where
  "removeRandomElement array g =
     (let (r, g') = math_random g;
          randomIndex = nat \<lfloor>r * real (length array)\<rfloor>
      in if randomIndex \<ge> length array then ((None, array), g')
         else ((Some (array ! randomIndex),
                take randomIndex array @ drop (Suc randomIndex) array), g'))"

text \<open>
  \<^verbatim>\<open>Phaser.Utils.Array.Shuffle(array)\<close>: for \<open>i\<close> from the last index down to 1, the
  element at \<open>i\<close> is swapped with the one at
  \<^verbatim>\<open>Math.floor(Math.random() * (i + 1))\<close> (the product taken exactly, as above).
\<close>

fun shuffle_from :: "nat \<Rightarrow> 'a list \<Rightarrow> rng \<Rightarrow> 'a list \<times> rng" where
  "shuffle_from 0 array g = (array, g)"
| "shuffle_from (Suc i) array g =
     (let (r, g') = math_random g;
          j = nat \<lfloor>r * real (Suc i + 1)\<rfloor>
      in shuffle_from i (array[Suc i := array ! j, j := array ! Suc i]) g')"

definition shuffle :: "'a list \<Rightarrow> rng \<Rightarrow> 'a list \<times> rng" where
  "shuffle array g = shuffle_from (length array - 1) array g"

text \<open>
  The start room is shifted off the copy of the room list, the end room is removed at
  random from the rest, and the prop rooms are the first
  \<^verbatim>\<open>rooms.length * 0.9\<close> (truncated by \<^verbatim>\<open>slice\<close>) of the shuffled remainder.
\<close>

definition classify_rooms ::
  "'a list \<Rightarrow> rng \<Rightarrow> ('a option \<times> 'a option \<times> 'a list) \<times> rng" where
  "classify_rooms dungeon_rooms g =
     (let startRoom = (case dungeon_rooms of [] \<Rightarrow> None | r # rest \<Rightarrow> Some r);
          rooms1 = drop 1 dungeon_rooms;
          ((endRoom, rooms2), g1) = removeRandomElement rooms1 g;
          (rooms3, g2) = shuffle rooms2 g1;
          otherRooms = take (nat \<lfloor>real (length rooms3) * 0.9\<rfloor>) rooms3
      in ((startRoom, endRoom, otherRooms), g2))"

section \<open>Placing stairs and props on the stuff layer\<close>

definition place_prop :: "tile_table \<Rightarrow> room \<Rightarrow> layer \<times> rng \<Rightarrow> layer \<times> rng" where
  "place_prop T room lg =
     (let (rand, g1) = math_random (snd lg)
      in if rand \<le> 0.25 then
           (putTileAt (CHEST T) (room_centerX room) (room_centerY room) (fst lg), g1)
         else if rand \<le> 0.5 then
           (let (px, g2) = math_between (room_left room + 2) (room_right room - 2) g1;
                (py, g3) = math_between (room_top room + 2) (room_bottom room - 2) g2
            in weightedRandomize (POT T) px py 1 1 (fst lg, g3))
         else if room_height room \<ge> 9 then
           (let l1 = putTilesAt (TOWER T) (room_centerX room - 1) (room_centerY room + 1) (fst lg);
                l2 = putTilesAt (TOWER T) (room_centerX room + 1) (room_centerY room + 1) l1;
                l3 = putTilesAt (TOWER T) (room_centerX room - 1) (room_centerY room - 2) l2;
                l4 = putTilesAt (TOWER T) (room_centerX room + 1) (room_centerY room - 2) l3
            in (l4, g1))
         else
           (let l1 = putTilesAt (TOWER T) (room_centerX room - 1) (room_centerY room - 1) (fst lg);
                l2 = putTilesAt (TOWER T) (room_centerX room + 1) (room_centerY room - 1) l1
            in (l2, g1)))"

definition place_props :: "tile_table \<Rightarrow> room list \<Rightarrow> layer \<times> rng \<Rightarrow> layer \<times> rng" where
  "place_props T otherRooms lg = fold (place_prop T) otherRooms lg"

section \<open>The room visibility tracker\<close>

text \<open>
  Modelled from the spec: the class \<^verbatim>\<open>TilemapVisibility\<close> (its file is not among the
  sources; the scene only constructs it and calls \<^verbatim>\<open>setActiveRoom\<close>). The active room
  is tracked explicitly; a room that stops being active is remembered as previously seen;
  every other room is unseen. A cell of the shadow grid is opaque, dimmed or revealed.
  On a call with a room (or none) that differs from the active one, the previous active
  room, if any, becomes previously seen and its cells are dimmed, and the new room, if
  any, becomes active and its cells are revealed; a call with the active room changes
  nothing.
\<close>

datatype shade = Opaque | Dimmed | Revealed

datatype room_visibility = Unseen | Active | PreviouslySeen

record visibility =
  shadow :: "cell \<Rightarrow> shade"
  activeRoom :: "room option"
  previouslySeen :: "room set"

definition new_visibility :: visibility where
  "new_visibility = \<lparr>shadow = (\<lambda>c. Opaque), activeRoom = None, previouslySeen = {}\<rparr>"

definition set_room_shade :: "room \<Rightarrow> shade \<Rightarrow> (cell \<Rightarrow> shade) \<Rightarrow> (cell \<Rightarrow> shade)" where
  "set_room_shade r sh grid = (\<lambda>c. if in_room r c then sh else grid c)"

definition setActiveRoom :: "room option \<Rightarrow> visibility \<Rightarrow> visibility" where
  "setActiveRoom newRoom v =
     (if newRoom = activeRoom v then v
      else
        (let v1 = (case activeRoom v of
                     None \<Rightarrow> v
                   | Some prev \<Rightarrow>
                       v\<lparr>shadow := set_room_shade prev Dimmed (shadow v),
                         previouslySeen := insert prev (previouslySeen v)\<rparr>);
             v2 = (case newRoom of
                     None \<Rightarrow> v1
                   | Some r \<Rightarrow> v1\<lparr>shadow := set_room_shade r Revealed (shadow v1)\<rparr>)
         in v2\<lparr>activeRoom := newRoom\<rparr>))"

definition room_state :: "visibility \<Rightarrow> room \<Rightarrow> room_visibility" where
  "room_state v r =
     (if activeRoom v = Some r then Active
      else if r \<in> previouslySeen v then PreviouslySeen
      else Unseen)"

text \<open>The cells of the active room and of every previously seen room are not opaque.\<close>

definition seen_cells_lit :: "visibility \<Rightarrow> bool" where
  "seen_cells_lit v =
     (\<forall>r c. room_state v r \<noteq> Unseen \<and> in_room r c \<longrightarrow> shadow v c \<noteq> Opaque)"

section \<open>The scene\<close>

text \<open>
  Modelled from the spec: the class \<^verbatim>\<open>Player\<close> (its file is not among the sources).
  The scene reads the position of its sprite and calls \<^verbatim>\<open>update\<close>, \<^verbatim>\<open>freeze\<close> and
  \<^verbatim>\<open>destroy\<close>; what \<^verbatim>\<open>update\<close> does to the player is a parameter of the scene's
  \<^verbatim>\<open>update\<close>.
\<close>

record player =
  sprite_x :: real
  sprite_y :: real
  frozen :: bool
  destroyed :: bool

definition new_player :: "real \<Rightarrow> real \<Rightarrow> player" where
  "new_player px py = \<lparr>sprite_x = px, sprite_y = py, frozen = False, destroyed = False\<rparr>"

text \<open>
  The main camera, as far as the scene drives it: the number of fade effects started and
  the number of one-shot listeners registered for the end of a fade.
\<close>

record camera =
  fadesStarted :: nat
  fadeCompleteListeners :: nat

datatype error = TypeError

record scene =
  level :: int
  hasPlayerReachedStairs :: bool
  dungeon :: dungeon
  groundLayer :: layer
  stuffLayer :: layer
  tilemapVisibility :: visibility
  player :: player
  camera :: camera

text \<open>The list of walkable tile indexes that both layers exclude from collision.\<close>

definition walkable :: "int list" where
  "walkable = [- 1, 6, 7, 8, 26]"

text \<open>
  \<^verbatim>\<open>create()\<close>, on the dungeon \<open>d\<close> that the dungeon library generated. A dungeon with
  fewer than two rooms has no end room, and reading the centre of \<^verbatim>\<open>undefined\<close> throws.
  The tilemap has tiles of 48 pixels, so a tile coordinate maps to the world by a factor
  of 48.
\<close>

definition create :: "tile_table \<Rightarrow> dungeon \<Rightarrow> rng \<Rightarrow> scene \<Rightarrow> error + (scene \<times> rng)" where
  "create T d g s =
     (let ground0 = fill (BLANK T) (createBlankLayer (dwidth d) (dheight d));
          stuff0 = createBlankLayer (dwidth d) (dheight d);
          (ground1, g1) = paint_rooms T (rooms d) (ground0, g);
          ((startRoom, endRoom, otherRooms), g2) = classify_rooms (rooms d) g1
      in case endRoom of
           None \<Rightarrow> Inl TypeError
         | Some e \<Rightarrow>
             (let stuff1 = putTileAt (STAIRS T) (room_centerX e) (room_centerY e) stuff0;
                  (stuff2, g3) = place_props T otherRooms (stuff1, g2);
                  ground2 = setCollisionByExclusion walkable ground1;
                  stuff3 = setCollisionByExclusion walkable stuff2;
                  stuff4 = setTileIndexCallback (STAIRS T) ReachStairs stuff3
              in case startRoom of
                   None \<Rightarrow> Inl TypeError
                 | Some playerRoom \<Rightarrow>
                     Inr (\<lparr>level = level s + 1,
                           hasPlayerReachedStairs = False,
                           dungeon = d,
                           groundLayer = ground2,
                           stuffLayer = stuff4,
                           tilemapVisibility = new_visibility,
                           player = new_player (real_of_int (room_centerX playerRoom * 48))
                                               (real_of_int (room_centerY playerRoom * 48)),
                           camera = camera s\<rparr>, g3)))"

text \<open>
  The callback registered for the stairs tile: it first replaces itself by a callback
  that does nothing, then sets the flag, freezes the player, starts the fade and
  registers the one-shot listener that restarts the scene.
\<close>

definition stairs_callback :: "tile_table \<Rightarrow> scene \<Rightarrow> scene" where
  "stairs_callback T s =
     (let s1 = s\<lparr>stuffLayer := setTileIndexCallback (STAIRS T) Noop (stuffLayer s)\<rparr>;
          s2 = s1\<lparr>hasPlayerReachedStairs := True\<rparr>;
          s3 = s2\<lparr>player := (player s2)\<lparr>frozen := True\<rparr>\<rparr>;
          s4 = s3\<lparr>camera := (camera s3)\<lparr>fadesStarted := Suc (fadesStarted (camera s3))\<rparr>\<rparr>
      in s4\<lparr>camera := (camera s4)\<lparr>fadeCompleteListeners :=
                                     Suc (fadeCompleteListeners (camera s4))\<rparr>\<rparr>)"

fun run_callback :: "tile_table \<Rightarrow> callback \<Rightarrow> scene \<Rightarrow> scene" where
  "run_callback T ReachStairs s = stairs_callback T s"
| "run_callback T Noop s = s"

text \<open>
  The physics step finds the player's body over the tile at cell \<open>c\<close> of the stuff layer:
  the callback registered for that tile's index, if any, runs.
\<close>

definition tile_overlap :: "tile_table \<Rightarrow> cell \<Rightarrow> scene \<Rightarrow> scene" where
  "tile_overlap T c s =
     (case callbacks (stuffLayer s) (tiles (stuffLayer s) c) of
        None \<Rightarrow> s
      | Some cb \<Rightarrow> run_callback T cb s)"

text \<open>
  \<^verbatim>\<open>dungeon.getRoomAt(x, y)\<close>: no room outside the dungeon, otherwise the first room
  that covers the tile, if any.
\<close>

definition getRoomAt :: "dungeon \<Rightarrow> int \<Rightarrow> int \<Rightarrow> room option" where
  "getRoomAt d tx ty =
     (if tx < 0 \<or> ty < 0 \<or> tx \<ge> dwidth d \<or> ty \<ge> dheight d then None
      else find (\<lambda>r. in_room r (tx, ty)) (rooms d))"

definition worldToTile :: "real \<Rightarrow> int" where
  "worldToTile w = \<lfloor>w / 48\<rfloor>"

text \<open>\<^verbatim>\<open>update(time, delta)\<close>; \<open>upd\<close> is the player's own update.\<close>

definition update :: "(player \<Rightarrow> player) \<Rightarrow> real \<Rightarrow> real \<Rightarrow> scene \<Rightarrow> scene" where
  "update upd time delta s =
     (if hasPlayerReachedStairs s then s
      else
        (let s1 = s\<lparr>player := upd (player s)\<rparr>;
             playerTileX = worldToTile (sprite_x (player s1));
             playerTileY = worldToTile (sprite_y (player s1));
             playerRoom = getRoomAt (dungeon s1) playerTileX playerTileY
         in s1\<lparr>tilemapVisibility := setActiveRoom playerRoom (tilemapVisibility s1)\<rparr>))"

section \<open>What the painter relies on\<close>

text \<open>
  The dungeon library's \<^verbatim>\<open>overlaps\<close> test on two rooms, and its contract for the
  options that \<^verbatim>\<open>create()\<close> passes, as far as the placement of props relies on it:
  every room is at least 7 wide and 7 high and lies within the dungeon, the rooms are
  distinct objects, and no two of them overlap.
\<close>

definition overlaps :: "room \<Rightarrow> room \<Rightarrow> bool" where
  "overlaps r1 r2 =
     (if room_right r1 < room_left r2 then False
      else if room_left r1 > room_right r2 then False
      else if room_bottom r1 < room_top r2 then False
      else if room_top r1 > room_bottom r2 then False
      else True)"

definition room_ok :: "dungeon \<Rightarrow> room \<Rightarrow> bool" where
  "room_ok d r =
     (7 \<le> room_width r \<and> 7 \<le> room_height r
      \<and> 0 \<le> room_x r \<and> room_x r + room_width r \<le> dwidth d
      \<and> 0 \<le> room_y r \<and> room_y r + room_height r \<le> dheight d)"

definition dungeon_ok :: "dungeon \<Rightarrow> bool" where
  "dungeon_ok d =
     (list_all (room_ok d) (rooms d) \<and> distinct (rooms d)
      \<and> list_all (\<lambda>r1. list_all (\<lambda>r2. r1 = r2 \<or> \<not> overlaps r1 r2) (rooms d)) (rooms d))"

text \<open>
  The tower pattern of the tile table is one column of at most two rows (a tower is a top
  tile over a bottom tile).
\<close>

definition tower_fits :: "tile_table \<Rightarrow> bool" where
  "tower_fits T =
     (length (TOWER T) \<le> 2 \<and> (case TOWER T of [] \<Rightarrow> True | row0 # rest \<Rightarrow> length row0 \<le> 1))"

text \<open>The end room that \<open>create\<close> draws (after painting the rooms).\<close>

definition end_room :: "tile_table \<Rightarrow> dungeon \<Rightarrow> rng \<Rightarrow> room option" where
  "end_room T d g =
     (let (ground1, g1) = paint_rooms T (rooms d)
                            (fill (BLANK T) (createBlankLayer (dwidth d) (dheight d)), g);
          ((startRoom, endRoom, otherRooms), g2) = classify_rooms (rooms d) g1
      in endRoom)"

section \<open>Invariants of painting\<close>

text \<open>
  A layer on which no collision has been declared: no colliding index and no colliding
  tile. Painting keeps the size of a layer, its callbacks and its colliding indexes, and
  keeps a layer free of collision.
\<close>

definition no_collision :: "layer \<Rightarrow> bool" where
  "no_collision l = (collideIndexes l = [] \<and> collides l = (\<lambda>c. False))"

definition layer_frame :: "layer \<Rightarrow> layer \<Rightarrow> bool" where
  "layer_frame l l' =
     (lwidth l' = lwidth l \<and> lheight l' = lheight l \<and> callbacks l' = callbacks l
      \<and> collideIndexes l' = collideIndexes l \<and> (no_collision l \<longrightarrow> no_collision l'))"

section \<open>Example inputs\<close>

definition example_room3 :: room where
  "example_room3 = \<lparr>room_x = 0, room_y = 0, room_width = 3, room_height = 3, room_doors = []\<rparr>"

definition example_room7 :: room where
  "example_room7 = \<lparr>room_x = 10, room_y = 1, room_width = 7, room_height = 9,
                      room_doors = [(0, 4)]\<rparr>"

definition example_dungeon :: dungeon where
  "example_dungeon =
     \<lparr>dwidth = 50, dheight = 50,
      rooms = [\<lparr>room_x = 1, room_y = 1, room_width = 9, room_height = 9,
                 room_doors = [(8, 4)]\<rparr>,
               example_room7,
               \<lparr>room_x = 17, room_y = 1, room_width = 7, room_height = 7,
                 room_doors = [(0, 3)]\<rparr>,
               \<lparr>room_x = 1, room_y = 10, room_width = 11, room_height = 7,
                 room_doors = [(4, 0)]\<rparr>]\<rparr>"

definition example_scene :: scene where
  "example_scene =
     \<lparr>level = 1, hasPlayerReachedStairs = True, dungeon = example_dungeon,
      groundLayer = createBlankLayer 50 50, stuffLayer = createBlankLayer 50 50,
      tilemapVisibility = new_visibility, player = new_player 240 240,
      camera = \<lparr>fadesStarted = 1, fadeCompleteListeners = 1\<rparr>\<rparr>"

text \<open>
  A stream of draws whose second draw is the largest value below 1 with 52 fractional
  bits: the first draw selects the pot, the second and third give its column and row,
  the fourth the pot variant.
\<close>

definition boundary_draws :: rng where
  "boundary_draws n =
     (if n = 0 then 3 / 8 else if n = 1 then 1 - 1 / 2 ^ 52 else if n = 2 then 1 / 2 else 0)"

section \<open>Properties of the engine operations\<close>

lemma rng_ok_math_random: "rng_ok g \<Longrightarrow> rng_ok (snd (math_random g))"
  by (simp add: rng_ok_def math_random_def)

lemma math_random_range: "rng_ok g \<Longrightarrow> 0 \<le> fst (math_random g) \<and> fst (math_random g) < 1"
  by (simp add: rng_ok_def math_random_def)

lemma floor_index_less:
  assumes "0 \<le> r" "r < 1" "0 < n"
  shows "nat \<lfloor>r * real n\<rfloor> < n"
proof -
  have "r * real n < real n" using assms by simp
  then have "\<lfloor>r * real n\<rfloor> < int n" by (simp add: floor_less_iff)
  then show ?thesis using assms by linarith
qed

lemma pick_weighted_rng_ok: "rng_ok g \<Longrightarrow> rng_ok (snd (pick_weighted wis rand acc g))"
  by (induction wis arbitrary: acc)
     (auto simp: Let_def rng_ok_math_random split: tile_choice.splits prod.splits
           dest: rng_ok_math_random)

lemma pick_weighted_in:
  assumes "list_all (\<lambda>wi. choice_ok (w_index wi)) wis" "rng_ok g"
    "rand \<le> acc + sum_list (map w_weight wis)" "wis \<noteq> []"
  shows "fst (pick_weighted wis rand acc g) \<in> weighted_indexes wis"
  using assms
proof (induction wis arbitrary: acc)
  case Nil
  then show ?case by simp
next
  case (Cons wi ws)
  show ?case
  proof (cases "rand \<le> acc + w_weight wi")
    case True
    show ?thesis
    proof (cases "w_index wi")
      case (Single i)
      with True show ?thesis by (simp add: weighted_indexes_def)
    next
      case (OneOf chosen)
      with Cons.prems have ne: "chosen \<noteq> []" by simp
      obtain r g' where rg: "math_random g = (r, g')" by (cases "math_random g")
      with math_random_range[OF Cons.prems(2)] have "0 \<le> r" "r < 1" by simp_all
      then have "nat \<lfloor>r * real (length chosen)\<rfloor> < length chosen"
        using ne by (intro floor_index_less) simp_all
      then have "chosen ! nat \<lfloor>r * real (length chosen)\<rfloor> \<in> set chosen" by simp
      with True OneOf rg show ?thesis by (simp add: weighted_indexes_def)
    qed
  next
    case False
    with Cons.prems have "ws \<noteq> []" by auto
    moreover from Cons.prems have "rand \<le> (acc + w_weight wi) + sum_list (map w_weight ws)"
      by (simp add: add.assoc)
    ultimately have "fst (pick_weighted ws rand (acc + w_weight wi) g) \<in> weighted_indexes ws"
      using Cons.prems by (intro Cons.IH) simp_all
    with False show ?thesis by (simp add: weighted_indexes_def)
  qed
qed

lemma randomize_tiles_frame:
  "lwidth (fst (randomize_tiles wis W cs lg)) = lwidth (fst lg)
   \<and> lheight (fst (randomize_tiles wis W cs lg)) = lheight (fst lg)
   \<and> collides (fst (randomize_tiles wis W cs lg)) = collides (fst lg)
   \<and> collideIndexes (fst (randomize_tiles wis W cs lg)) = collideIndexes (fst lg)
   \<and> callbacks (fst (randomize_tiles wis W cs lg)) = callbacks (fst lg)"
  by (induction cs arbitrary: lg) (simp_all add: Let_def split: prod.splits)

lemma randomize_tiles_rng_ok:
  "rng_ok (snd lg) \<Longrightarrow> rng_ok (snd (randomize_tiles wis W cs lg))"
proof (induction cs arbitrary: lg)
  case Nil
  then show ?case by simp
next
  case (Cons c cs)
  obtain r g1 where a: "math_random (snd lg) = (r, g1)" by (cases "math_random (snd lg)")
  obtain i g2 where b: "pick_weighted wis (r * W) 0 g1 = (i, g2)"
    by (cases "pick_weighted wis (r * W) 0 g1")
  from a Cons.prems have "rng_ok g1" using rng_ok_math_random[of "snd lg"] by simp
  with b have "rng_ok g2" using pick_weighted_rng_ok[of g1 wis "r * W" 0] by simp
  then show ?case using a b Cons.IH[of "((fst lg)\<lparr>tiles := (tiles (fst lg))(c := i)\<rparr>, g2)"]
    by simp
qed

lemma randomize_tiles_outside:
  "c \<notin> set cs \<Longrightarrow> tiles (fst (randomize_tiles wis W cs lg)) c = tiles (fst lg) c"
  by (induction cs arbitrary: lg) (auto simp: Let_def split: prod.splits)

lemma randomize_tiles_inside:
  assumes "weighted_ok wis" "W = sum_list (map w_weight wis)" "rng_ok (snd lg)" "c \<in> set cs"
  shows "tiles (fst (randomize_tiles wis W cs lg)) c \<in> weighted_indexes wis"
  using assms(3,4)
proof (induction cs arbitrary: lg)
  case Nil
  then show ?case by simp
next
  case (Cons a cs)
  obtain r g1 where a: "math_random (snd lg) = (r, g1)" by (cases "math_random (snd lg)")
  obtain i g2 where b: "pick_weighted wis (r * W) 0 g1 = (i, g2)"
    by (cases "pick_weighted wis (r * W) 0 g1")
  let ?lg = "((fst lg)\<lparr>tiles := (tiles (fst lg))(a := i)\<rparr>, g2)"
  from a Cons.prems have g1: "rng_ok g1" and r: "0 \<le> r" "r < 1"
    using rng_ok_math_random[of "snd lg"] math_random_range[of "snd lg"] by simp_all
  with b have g2: "rng_ok g2" using pick_weighted_rng_ok[of g1 wis "r * W" 0] by simp
  have W: "0 < W" and ok: "list_all (\<lambda>wi. choice_ok (w_index wi)) wis"
    using assms(1,2) by (simp_all add: weighted_ok_def)
  then have ne: "wis \<noteq> []" using assms(2) by auto
  have "r * W \<le> 0 + sum_list (map w_weight wis)"
    using r W assms(2) by (simp add: mult_left_le_one_le)
  from pick_weighted_in[OF ok g1 this ne] b have i: "i \<in> weighted_indexes wis" by simp
  have step: "randomize_tiles wis W (a # cs) lg = randomize_tiles wis W cs ?lg"
    using a b by simp
  show ?case
  proof (cases "c \<in> set cs")
    case True
    then show ?thesis using Cons.IH[of ?lg] g2 step by simp
  next
    case False
    with Cons.prems have "c = a" by simp
    with False i show ?thesis using randomize_tiles_outside[of c cs wis W ?lg] step by simp
  qed
qed



lemma grid_cells_set:
  "c \<in> set (concat (map (\<lambda>ty. map (\<lambda>tx. (tx, ty)) [a..b]) [lo..hi])) \<longleftrightarrow>
     a \<le> fst c \<and> fst c \<le> b \<and> lo \<le> snd c \<and> snd c \<le> hi"
  by (cases c) (auto simp: image_iff)

lemma getTilesWithin_set:
  "c \<in> set (getTilesWithin tileX tileY w h l) \<longleftrightarrow>
     tileX \<le> fst c \<and> fst c < tileX + w \<and> tileY \<le> snd c \<and> snd c < tileY + h
     \<and> isInLayerBounds (fst c) (snd c) l"
  unfolding getTilesWithin_def Let_def grid_cells_set isInLayerBounds_def
  by (simp split: if_splits) linarith

lemma weightedRandomize_frame:
  "lwidth (fst (weightedRandomize wis tx ty w h lg)) = lwidth (fst lg)
   \<and> lheight (fst (weightedRandomize wis tx ty w h lg)) = lheight (fst lg)
   \<and> collides (fst (weightedRandomize wis tx ty w h lg)) = collides (fst lg)
   \<and> collideIndexes (fst (weightedRandomize wis tx ty w h lg)) = collideIndexes (fst lg)
   \<and> callbacks (fst (weightedRandomize wis tx ty w h lg)) = callbacks (fst lg)"
  by (simp add: weightedRandomize_def Let_def randomize_tiles_frame)

lemma weightedRandomize_rng_ok:
  "rng_ok (snd lg) \<Longrightarrow> rng_ok (snd (weightedRandomize wis tx ty w h lg))"
  by (simp add: weightedRandomize_def Let_def randomize_tiles_rng_ok)

lemma weightedRandomize_outside:
  "\<not> (tx \<le> fst c \<and> fst c < tx + w \<and> ty \<le> snd c \<and> snd c < ty + h
       \<and> isInLayerBounds (fst c) (snd c) (fst lg))
   \<Longrightarrow> tiles (fst (weightedRandomize wis tx ty w h lg)) c = tiles (fst lg) c"
  unfolding weightedRandomize_def Let_def
  by (simp add: randomize_tiles_outside getTilesWithin_set)

lemma weightedRandomize_inside:
  assumes "weighted_ok wis" "rng_ok (snd lg)"
    "tx \<le> fst c" "fst c < tx + w" "ty \<le> snd c" "snd c < ty + h"
    "isInLayerBounds (fst c) (snd c) (fst lg)"
  shows "tiles (fst (weightedRandomize wis tx ty w h lg)) c \<in> weighted_indexes wis"
proof -
  have "c \<in> set (getTilesWithin tx ty w h (fst lg))"
    using assms(3-7) by (simp add: getTilesWithin_set)
  moreover have "\<not> sum_list (map w_weight wis) \<le> 0"
    using assms(1) by (simp add: weighted_ok_def)
  ultimately show ?thesis
    unfolding weightedRandomize_def Let_def
    using randomize_tiles_inside[OF assms(1) refl assms(2)] by simp
qed

lemma putTileAt_tiles:
  "tiles (putTileAt idx tx ty l) c =
     (if c = (tx, ty) \<and> isInLayerBounds tx ty l then idx else tiles l c)"
  by (simp add: putTileAt_def)

lemma putTileAt_dims:
  "lwidth (putTileAt idx tx ty l) = lwidth l \<and> lheight (putTileAt idx tx ty l) = lheight l"
  by (simp add: putTileAt_def)

lemma isInLayerBounds_cong:
  "lwidth l' = lwidth l \<Longrightarrow> lheight l' = lheight l
   \<Longrightarrow> isInLayerBounds tx ty l' = isInLayerBounds tx ty l"
  by (simp add: isInLayerBounds_def)

lemma weightedRandomize_bounds:
  "isInLayerBounds tx' ty' (fst (weightedRandomize wis tx ty w h lg)) = isInLayerBounds tx' ty' (fst lg)"
  by (simp add: isInLayerBounds_def weightedRandomize_frame)

lemma putTileAt_bounds:
  "isInLayerBounds tx' ty' (putTileAt idx tx ty l) = isInLayerBounds tx' ty' l"
  by (simp add: isInLayerBounds_def putTileAt_dims)

lemma weightedRandomize_left_of:
  "cx < tx \<Longrightarrow> tiles (fst (weightedRandomize wis tx ty w h lg)) (cx, cy) = tiles (fst lg) (cx, cy)"
  by (simp add: weightedRandomize_outside)

lemma weightedRandomize_right_of:
  "tx + w \<le> cx \<Longrightarrow> tiles (fst (weightedRandomize wis tx ty w h lg)) (cx, cy) = tiles (fst lg) (cx, cy)"
  by (simp add: weightedRandomize_outside)

lemma weightedRandomize_above:
  "cy < ty \<Longrightarrow> tiles (fst (weightedRandomize wis tx ty w h lg)) (cx, cy) = tiles (fst lg) (cx, cy)"
  by (simp add: weightedRandomize_outside)

lemma weightedRandomize_below:
  "ty + h \<le> cy \<Longrightarrow> tiles (fst (weightedRandomize wis tx ty w h lg)) (cx, cy) = tiles (fst lg) (cx, cy)"
  by (simp add: weightedRandomize_outside)

lemmas wr_skip = weightedRandomize_left_of weightedRandomize_right_of
  weightedRandomize_above weightedRandomize_below

section \<open>Properties of the painter\<close>

text \<open>
  C1. For a room at least 3 wide and 3 high, after the floor, corner and wall steps of
  the painter every cell of the ground grid inside the room's interior (the rectangle
  from \<open>(x+1, y+1)\<close> of size \<open>(width-2) \<times> (height-2)\<close>) holds one of the floor
  alternatives, every boundary cell that is not a corner holds one of the wall
  alternatives of its edge (top row, bottom row, left column, right column), and the
  four corners hold the four corner indexes of their orientation. The weighted lists
  have a positive total weight and no empty alternative, and the draws are in \<open>[0, 1)\<close>.
\<close>

theorem paint_walls_cells:
  assumes size: "3 \<le> room_width r" "3 \<le> room_height r"
    and tab: "weighted_ok (FLOOR T)" "weighted_ok (WALL_TOP T)" "weighted_ok (WALL_BOTTOM T)"
      "weighted_ok (WALL_LEFT T)" "weighted_ok (WALL_RIGHT T)"
    and g: "rng_ok g"
    and inb: "isInLayerBounds cx cy l"
  shows
    "(room_x r + 1 \<le> cx \<and> cx < room_x r + 1 + (room_width r - 2) \<and>
      room_y r + 1 \<le> cy \<and> cy < room_y r + 1 + (room_height r - 2)
        \<longrightarrow> tiles (fst (paint_walls T r (l, g))) (cx, cy) \<in> weighted_indexes (FLOOR T))
     \<and> (room_left r < cx \<and> cx < room_right r \<and> cy = room_top r
        \<longrightarrow> tiles (fst (paint_walls T r (l, g))) (cx, cy) \<in> weighted_indexes (WALL_TOP T))
     \<and> (room_left r < cx \<and> cx < room_right r \<and> cy = room_bottom r
        \<longrightarrow> tiles (fst (paint_walls T r (l, g))) (cx, cy) \<in> weighted_indexes (WALL_BOTTOM T))
     \<and> (cx = room_left r \<and> room_top r < cy \<and> cy < room_bottom r
        \<longrightarrow> tiles (fst (paint_walls T r (l, g))) (cx, cy) \<in> weighted_indexes (WALL_LEFT T))
     \<and> (cx = room_right r \<and> room_top r < cy \<and> cy < room_bottom r
        \<longrightarrow> tiles (fst (paint_walls T r (l, g))) (cx, cy) \<in> weighted_indexes (WALL_RIGHT T))
     \<and> (cx = room_left r \<and> cy = room_top r
        \<longrightarrow> tiles (fst (paint_walls T r (l, g))) (cx, cy) = WALL_TOP_LEFT T)
     \<and> (cx = room_right r \<and> cy = room_top r
        \<longrightarrow> tiles (fst (paint_walls T r (l, g))) (cx, cy) = WALL_TOP_RIGHT T)
     \<and> (cx = room_right r \<and> cy = room_bottom r
        \<longrightarrow> tiles (fst (paint_walls T r (l, g))) (cx, cy) = WALL_BOTTOM_RIGHT T)
     \<and> (cx = room_left r \<and> cy = room_bottom r
        \<longrightarrow> tiles (fst (paint_walls T r (l, g))) (cx, cy) = WALL_BOTTOM_LEFT T)"
proof -
  define lg1 where "lg1 = weightedRandomize (FLOOR T) (room_x r + 1) (room_y r + 1)
                  (room_width r - 2) (room_height r - 2) (l, g)"
  define l2 where "l2 = putTileAt (WALL_TOP_LEFT T) (room_left r) (room_top r) (fst lg1)"
  define l3 where "l3 = putTileAt (WALL_TOP_RIGHT T) (room_right r) (room_top r) l2"
  define l4 where "l4 = putTileAt (WALL_BOTTOM_RIGHT T) (room_right r) (room_bottom r) l3"
  define l5 where "l5 = putTileAt (WALL_BOTTOM_LEFT T) (room_left r) (room_bottom r) l4"
  define lg6 where "lg6 = weightedRandomize (WALL_TOP T) (room_left r + 1) (room_top r)
                  (room_width r - 2) 1 (l5, snd lg1)"
  define lg7 where "lg7 = weightedRandomize (WALL_BOTTOM T) (room_left r + 1) (room_bottom r)
                  (room_width r - 2) 1 lg6"
  define lg8 where "lg8 = weightedRandomize (WALL_LEFT T) (room_left r) (room_top r + 1)
                  1 (room_height r - 2) lg7"
  define lg9 where "lg9 = weightedRandomize (WALL_RIGHT T) (room_right r) (room_top r + 1)
           1 (room_height r - 2) lg8"
  have res: "paint_walls T r (l, g) = lg9"
    by (simp add: paint_walls_def Let_def lg1_def l2_def l3_def l4_def l5_def lg6_def
        lg7_def lg8_def lg9_def)
  have g1: "rng_ok (snd lg1)" unfolding lg1_def using g by (intro weightedRandomize_rng_ok) simp
  have g6: "rng_ok (snd lg6)" unfolding lg6_def using g1 by (intro weightedRandomize_rng_ok) simp
  have g7: "rng_ok (snd lg7)" unfolding lg7_def using g6 by (intro weightedRandomize_rng_ok)
  have g8: "rng_ok (snd lg8)" unfolding lg8_def using g7 by (intro weightedRandomize_rng_ok)
  have b1: "isInLayerBounds cx cy (fst lg1)"
    using inb by (simp add: lg1_def weightedRandomize_bounds)
  have b5: "isInLayerBounds cx cy l5"
    using b1 by (simp add: l5_def l4_def l3_def l2_def putTileAt_bounds)
  have b6: "isInLayerBounds cx cy (fst lg6)"
    using b5 by (simp add: lg6_def weightedRandomize_bounds)
  have b7: "isInLayerBounds cx cy (fst lg7)"
    using b6 by (simp add: lg7_def weightedRandomize_bounds)
  have b8: "isInLayerBounds cx cy (fst lg8)"
    using b7 by (simp add: lg8_def weightedRandomize_bounds)
  note rd = room_left_def room_right_def room_top_def room_bottom_def
  have floor: "tiles (fst lg9) (cx, cy) \<in> weighted_indexes (FLOOR T)"
    if c: "room_x r + 1 \<le> cx" "cx < room_x r + 1 + (room_width r - 2)"
      "room_y r + 1 \<le> cy" "cy < room_y r + 1 + (room_height r - 2)"
  proof -
    have "tiles (fst lg1) (cx, cy) \<in> weighted_indexes (FLOOR T)"
      unfolding lg1_def using c inb g by (intro weightedRandomize_inside[OF tab(1)]) simp_all
    moreover have "tiles (fst lg9) (cx, cy) = tiles (fst lg1) (cx, cy)"
      using c by (simp add: lg9_def lg8_def lg7_def lg6_def l5_def l4_def l3_def l2_def rd
          wr_skip putTileAt_tiles)
    ultimately show ?thesis by simp
  qed
  have top: "tiles (fst lg9) (cx, cy) \<in> weighted_indexes (WALL_TOP T)"
    if c: "room_left r < cx" "cx < room_right r" "cy = room_top r"
  proof -
    have "tiles (fst lg6) (cx, cy) \<in> weighted_indexes (WALL_TOP T)"
      unfolding lg6_def using c b5 g1
      by (intro weightedRandomize_inside[OF tab(2)]) (simp_all add: rd)
    moreover have "tiles (fst lg9) (cx, cy) = tiles (fst lg6) (cx, cy)"
      using c size by (simp add: lg9_def lg8_def lg7_def rd wr_skip)
    ultimately show ?thesis by simp
  qed
  have bottom: "tiles (fst lg9) (cx, cy) \<in> weighted_indexes (WALL_BOTTOM T)"
    if c: "room_left r < cx" "cx < room_right r" "cy = room_bottom r"
  proof -
    have "tiles (fst lg7) (cx, cy) \<in> weighted_indexes (WALL_BOTTOM T)"
      unfolding lg7_def using c b6 g6
      by (intro weightedRandomize_inside[OF tab(3)]) (simp_all add: rd)
    moreover have "tiles (fst lg9) (cx, cy) = tiles (fst lg7) (cx, cy)"
      using c size by (simp add: lg9_def lg8_def rd wr_skip)
    ultimately show ?thesis by simp
  qed
  have left: "tiles (fst lg9) (cx, cy) \<in> weighted_indexes (WALL_LEFT T)"
    if c: "cx = room_left r" "room_top r < cy" "cy < room_bottom r"
  proof -
    have "tiles (fst lg8) (cx, cy) \<in> weighted_indexes (WALL_LEFT T)"
      unfolding lg8_def using c b7 g7
      by (intro weightedRandomize_inside[OF tab(4)]) (simp_all add: rd)
    moreover have "tiles (fst lg9) (cx, cy) = tiles (fst lg8) (cx, cy)"
      using c size by (simp add: lg9_def rd wr_skip)
    ultimately show ?thesis by simp
  qed
  have right: "tiles (fst lg9) (cx, cy) \<in> weighted_indexes (WALL_RIGHT T)"
    if c: "cx = room_right r" "room_top r < cy" "cy < room_bottom r"
    unfolding lg9_def using c b8 g8
    by (intro weightedRandomize_inside[OF tab(5)]) (simp_all add: rd)
  have skip_walls: "tiles (fst lg9) (cx, cy) = tiles l5 (cx, cy)"
    if c: "cy = room_top r \<or> cy = room_bottom r" "cx = room_left r \<or> cx = room_right r"
    using c size by (auto simp: lg9_def lg8_def lg7_def lg6_def rd wr_skip)
  have b2: "isInLayerBounds cx cy l2" "isInLayerBounds cx cy l3" "isInLayerBounds cx cy l4"
    using b1 by (simp_all add: l4_def l3_def l2_def putTileAt_bounds)
  have tl: "tiles (fst lg9) (cx, cy) = WALL_TOP_LEFT T" if c: "cx = room_left r" "cy = room_top r"
    using c size b1 b2 skip_walls
    by (simp add: l5_def l4_def l3_def l2_def putTileAt_tiles rd)
  have tr: "tiles (fst lg9) (cx, cy) = WALL_TOP_RIGHT T" if c: "cx = room_right r" "cy = room_top r"
    using c size b1 b2 skip_walls
    by (simp add: l5_def l4_def l3_def l2_def putTileAt_tiles rd)
  have br: "tiles (fst lg9) (cx, cy) = WALL_BOTTOM_RIGHT T"
    if c: "cx = room_right r" "cy = room_bottom r"
    using c size b1 b2 skip_walls
    by (simp add: l5_def l4_def l3_def l2_def putTileAt_tiles rd)
  have bl: "tiles (fst lg9) (cx, cy) = WALL_BOTTOM_LEFT T"
    if c: "cx = room_left r" "cy = room_bottom r"
    using c size b1 b2 skip_walls
    by (simp add: l5_def l4_def l3_def l2_def putTileAt_tiles rd)
  show ?thesis
    unfolding res
    apply (intro conjI impI; elim conjE)
    subgoal by (rule floor)
    subgoal by (rule top)
    subgoal by (rule bottom)
    subgoal by (rule left)
    subgoal by (rule right)
    subgoal by (rule tl)
    subgoal by (rule tr)
    subgoal by (rule br)
    subgoal by (rule bl)
    done
qed

lemma example_tiles_ok:
  "weighted_ok (FLOOR example_tiles) \<and> weighted_ok (WALL_TOP example_tiles)
   \<and> weighted_ok (WALL_BOTTOM example_tiles) \<and> weighted_ok (WALL_LEFT example_tiles)
   \<and> weighted_ok (WALL_RIGHT example_tiles) \<and> weighted_ok (POT example_tiles)"
  by (simp add: weighted_ok_def example_tiles_def)

theorem paint_walls_cells_witness:
  "3 \<le> room_width example_room3 \<and> 3 \<le> room_height example_room3
   \<and> weighted_ok (FLOOR example_tiles) \<and> weighted_ok (WALL_TOP example_tiles)
   \<and> weighted_ok (WALL_BOTTOM example_tiles) \<and> weighted_ok (WALL_LEFT example_tiles)
   \<and> weighted_ok (WALL_RIGHT example_tiles)
   \<and> rng_ok (\<lambda>n. 0)
   \<and> isInLayerBounds 1 1 (createBlankLayer 3 3)
   \<and> isInLayerBounds 1 0 (createBlankLayer 3 3)
   \<and> isInLayerBounds 0 0 (createBlankLayer 3 3)
   \<and> tiles (fst (paint_walls example_tiles example_room3 (createBlankLayer 3 3, \<lambda>n. 0))) (1, 1)
        \<in> weighted_indexes (FLOOR example_tiles)
   \<and> tiles (fst (paint_walls example_tiles example_room3 (createBlankLayer 3 3, \<lambda>n. 0))) (1, 0)
        \<in> weighted_indexes (WALL_TOP example_tiles)
   \<and> tiles (fst (paint_walls example_tiles example_room3 (createBlankLayer 3 3, \<lambda>n. 0))) (0, 0)
        = WALL_TOP_LEFT example_tiles"
proof -
  have sz: "3 \<le> room_width example_room3" "3 \<le> room_height example_room3"
    by (simp_all add: example_room3_def)
  have g: "rng_ok (\<lambda>n. 0)" by (simp add: rng_ok_def)
  have b: "isInLayerBounds 1 1 (createBlankLayer 3 3)" "isInLayerBounds 1 0 (createBlankLayer 3 3)"
    "isInLayerBounds 0 0 (createBlankLayer 3 3)"
    by (simp_all add: isInLayerBounds_def createBlankLayer_def)
  note ok = example_tiles_ok
  note th = paint_walls_cells[of example_room3 example_tiles "\<lambda>n. 0" _ _ "createBlankLayer 3 3",
      OF sz ok[THEN conjunct1] ok[THEN conjunct2, THEN conjunct1]
        ok[THEN conjunct2, THEN conjunct2, THEN conjunct1]
        ok[THEN conjunct2, THEN conjunct2, THEN conjunct2, THEN conjunct1]
        ok[THEN conjunct2, THEN conjunct2, THEN conjunct2, THEN conjunct2, THEN conjunct1] g]
  have rs: "room_x example_room3 = 0" "room_y example_room3 = 0" "room_width example_room3 = 3"
    "room_height example_room3 = 3" "room_left example_room3 = 0" "room_top example_room3 = 0"
    "room_right example_room3 = 2" "room_bottom example_room3 = 2"
    by (simp_all add: example_room3_def room_left_def room_top_def room_right_def room_bottom_def)
  from th[OF b(1)] have c1: "tiles (fst (paint_walls example_tiles example_room3 (createBlankLayer 3 3, \<lambda>n. 0))) (1, 1)
        \<in> weighted_indexes (FLOOR example_tiles)"
    by (simp add: rs)
  from th[OF b(2)] have c2: "tiles (fst (paint_walls example_tiles example_room3 (createBlankLayer 3 3, \<lambda>n. 0))) (1, 0)
        \<in> weighted_indexes (WALL_TOP example_tiles)"
    by (simp add: rs)
  from th[OF b(3)] have c3: "tiles (fst (paint_walls example_tiles example_room3 (createBlankLayer 3 3, \<lambda>n. 0))) (0, 0)
        = WALL_TOP_LEFT example_tiles"
    by (simp add: rs)
  show ?thesis using sz ok g b c1 c2 c3 by simp
qed

text \<open>
  C2. The edge of a door is a function of the door's local coordinates and the room's
  width and height alone, decided with the priority top, bottom, left, right: painting a
  door is stamping the pattern of that edge, anchored one cell before the door along the
  edge's axis (\<open>x - 1\<close> for a top or bottom door, \<open>y - 1\<close> for a left or right door). A
  door in row 0 is a top door whatever its column, a door in the last row is a bottom
  door unless that row is also row 0, and so, in a room more than one cell wide, a door
  that meets more than one of the four conditions is a top or a bottom door.
\<close>

theorem door_edge_priority_and_anchor:
  "paint_door T r d l = spec_paint_door T r d l
   \<and> spec_door_edge dx 0 w h = Some EdgeTop
   \<and> spec_door_edge dx (h - 1) w h = (if h - 1 = 0 then Some EdgeTop else Some EdgeBottom)
   \<and> (2 \<le> w \<and> 2 \<le> length (filter (\<lambda>b. b) [dy = 0, dy = h - 1, dx = 0, dx = w - 1])
        \<longrightarrow> spec_door_edge dx dy w h = Some EdgeTop \<or> spec_door_edge dx dy w h = Some EdgeBottom)"
proof -
  have a: "paint_door T r d l = spec_paint_door T r d l"
    by (simp add: paint_door_def spec_paint_door_def spec_door_edge_def)
  have b: "spec_door_edge dx 0 w h = Some EdgeTop"
    "spec_door_edge dx (h - 1) w h = (if h - 1 = 0 then Some EdgeTop else Some EdgeBottom)"
    by (simp_all add: spec_door_edge_def)
  have c: "spec_door_edge dx dy w h = Some EdgeTop \<or> spec_door_edge dx dy w h = Some EdgeBottom"
    if "2 \<le> w \<and> 2 \<le> length (filter (\<lambda>b. b) [dy = 0, dy = h - 1, dx = 0, dx = w - 1])"
    using that by (auto simp: spec_door_edge_def split: if_splits)
  from a b c show ?thesis by blast
qed

theorem door_edge_priority_and_anchor_witness:
  "(2::int) \<le> 7
   \<and> 2 \<le> length (filter (\<lambda>b. b) [(0::int) = 0, (0::int) = 9 - 1, (0::int) = 0, (0::int) = 7 - 1])
   \<and> (spec_door_edge 0 0 7 9 = Some EdgeTop \<or> spec_door_edge 0 0 7 9 = Some EdgeBottom)
   \<and> paint_door example_tiles example_room7 (0, 4) (createBlankLayer 50 50)
       = putTilesAt (DOOR_LEFT example_tiles) 10 4 (createBlankLayer 50 50)"
proof -
  have h1: "(2::int) \<le> 7" by simp
  have h2: "2 \<le> length (filter (\<lambda>b. b)
                 [(0::int) = 0, (0::int) = 9 - 1, (0::int) = 0, (0::int) = 7 - 1])"
    by simp
  note t = door_edge_priority_and_anchor[of example_tiles example_room7 "(0, 4)"
      "createBlankLayer 50 50" 0 7 9 0]
  have e: "spec_door_edge 0 0 7 9 = Some EdgeTop \<or> spec_door_edge 0 0 7 9 = Some EdgeBottom"
    using t h1 h2 by blast
  have p: "paint_door example_tiles example_room7 (0, 4) (createBlankLayer 50 50)
       = putTilesAt (DOOR_LEFT example_tiles) 10 4 (createBlankLayer 50 50)"
    using t[THEN conjunct1]
    by (simp add: spec_paint_door_def spec_door_edge_def example_room7_def)
  show ?thesis by (rule conjI[OF h1 conjI[OF h2 conjI[OF e p]]])
qed

section \<open>Properties of the room classification\<close>

lemma removeRandomElement_nonempty:
  assumes "rng_ok g" "xs \<noteq> []"
  defines "k \<equiv> nat \<lfloor>g 0 * real (length xs)\<rfloor>"
  shows "removeRandomElement xs g =
           ((Some (xs ! k), take k xs @ drop (Suc k) xs), \<lambda>n. g (Suc n))"
    and "k < length xs"
proof -
  have r: "0 \<le> g 0" "g 0 < 1" using assms(1) by (simp_all add: rng_ok_def)
  show k: "k < length xs" unfolding k_def using r assms(2) by (intro floor_index_less) simp_all
  then show "removeRandomElement xs g =
           ((Some (xs ! k), take k xs @ drop (Suc k) xs), \<lambda>n. g (Suc n))"
    by (simp add: removeRandomElement_def math_random_def Let_def k_def)
qed

lemma shuffle_from_mset:
  "i < length xs \<Longrightarrow> rng_ok g \<Longrightarrow> mset (fst (shuffle_from i xs g)) = mset xs"
proof (induction i arbitrary: xs g)
  case 0
  then show ?case by simp
next
  case (Suc i)
  obtain r g' where rg: "math_random g = (r, g')" by (cases "math_random g")
  with Suc.prems have r: "0 \<le> r" "r < 1" and g': "rng_ok g'"
    using math_random_range[of g] rng_ok_math_random[of g] by simp_all
  define j where "j = nat \<lfloor>r * real (Suc i + 1)\<rfloor>"
  have "j < Suc i + 1" unfolding j_def using r by (intro floor_index_less) simp_all
  with Suc.prems have j: "j < length xs" by simp
  let ?ys = "xs[Suc i := xs ! j, j := xs ! Suc i]"
  have "mset ?ys = mset xs" using j Suc.prems(1) by (rule mset_swap)
  moreover have "mset (fst (shuffle_from i ?ys g')) = mset ?ys"
    using Suc.prems(1) g' by (intro Suc.IH) simp_all
  moreover have "shuffle_from (Suc i) xs g = shuffle_from i ?ys g'"
    using rg by (simp add: j_def Let_def)
  ultimately show ?case by simp
qed

lemma shuffle_mset: "rng_ok g \<Longrightarrow> mset (fst (shuffle xs g)) = mset xs"
proof (cases xs)
  case Nil
  then show ?thesis by (simp add: shuffle_def)
next
  case (Cons a as)
  assume "rng_ok g"
  then show ?thesis unfolding shuffle_def using Cons by (intro shuffle_from_mset) simp_all
qed

lemma floor_nine_tenths_le: "nat \<lfloor>real n * 0.9\<rfloor> \<le> n"
proof -
  have "real n * 0.9 \<le> real n" by simp
  then have "\<lfloor>real n * 0.9\<rfloor> \<le> int n" by (simp add: floor_le_iff)
  then show ?thesis by linarith
qed


lemma shuffle_from_rng_ok: "rng_ok g \<Longrightarrow> rng_ok (snd (shuffle_from i xs g))"
proof (induction i arbitrary: xs g)
  case 0
  then show ?case by simp
next
  case (Suc i)
  obtain r g' where rg: "math_random g = (r, g')" by (cases "math_random g")
  with Suc.prems have "rng_ok g'" using rng_ok_math_random[of g] by simp
  then show ?case using rg Suc.IH[of g'] by (simp add: Let_def)
qed

lemma shuffle_rng_ok: "rng_ok g \<Longrightarrow> rng_ok (snd (shuffle xs g))"
  by (simp add: shuffle_def shuffle_from_rng_ok)

lemma classify_rooms_shape:
  assumes n: "2 \<le> length rs" and g: "rng_ok g"
  shows "\<exists>e props leftover g'.
           classify_rooms rs g = ((Some (rs ! 0), Some e, props), g')
         \<and> e = drop 1 rs ! nat \<lfloor>g 0 * real (length rs - 1)\<rfloor>
         \<and> nat \<lfloor>g 0 * real (length rs - 1)\<rfloor> < length rs - 1
         \<and> length props = nat \<lfloor>real (length rs - 2) * 0.9\<rfloor>
         \<and> mset rs = mset (rs ! 0 # e # props @ leftover)
         \<and> rng_ok g'"
proof -
  obtain s rest where rs: "rs = s # rest" using n by (cases rs) auto
  with n have rest: "rest \<noteq> []" by auto
  define k where "k = nat \<lfloor>g 0 * real (length rest)\<rfloor>"
  define rooms2 where "rooms2 = take k rest @ drop (Suc k) rest"
  define g1 where "g1 = (\<lambda>n. g (Suc n))"
  have rm: "removeRandomElement rest g = ((Some (rest ! k), rooms2), g1)" and k: "k < length rest"
    using removeRandomElement_nonempty[OF g rest] by (simp_all add: k_def rooms2_def g1_def)
  have g1: "rng_ok g1" using g by (simp add: g1_def rng_ok_def)
  obtain rooms3 g2 where sh: "shuffle rooms2 g1 = (rooms3, g2)" by (cases "shuffle rooms2 g1")
  have m3: "mset rooms3 = mset rooms2" using shuffle_mset[OF g1, of rooms2] sh by simp
  have g2: "rng_ok g2" using shuffle_rng_ok[OF g1, of rooms2] sh by simp
  define m where "m = nat \<lfloor>real (length rooms3) * 0.9\<rfloor>"
  define props where "props = take m rooms3"
  have split: "rest = take k rest @ rest ! k # drop (Suc k) rest"
    using k by (rule id_take_nth_drop)
  have len2: "length rooms2 = length rs - 2" using k rs by (simp add: rooms2_def)
  have len3: "length rooms3 = length rs - 2" using m3 len2 by (metis size_mset)
  have mle: "m \<le> length rooms3" unfolding m_def by (rule floor_nine_tenths_le)
  have cl: "classify_rooms rs g = ((Some s, Some (rest ! k), props), g2)"
    using rm sh by (simp add: classify_rooms_def rs Let_def props_def m_def)
  have mrest: "mset rest = add_mset (rest ! k) (mset rooms2)"
    by (subst split) (simp add: rooms2_def)
  have "rooms3 = props @ drop m rooms3" by (simp add: props_def)
  then have "mset rooms3 = mset props + mset (drop m rooms3)" by (metis mset_append)
  then have part: "mset rs = mset (s # rest ! k # props @ drop m rooms3)"
    using mrest m3 by (simp add: rs)
  have lp: "length props = nat \<lfloor>real (length rs - 2) * 0.9\<rfloor>"
    using mle by (simp add: props_def m_def len3)
  have kk: "k = nat \<lfloor>g 0 * real (length rs - 1)\<rfloor>" by (simp add: k_def rs)
  show ?thesis
    apply (rule exI[of _ "rest ! k"], rule exI[of _ props], rule exI[of _ "drop m rooms3"],
        rule exI[of _ g2])
    using cl part lp kk k g2
    by (simp add: rs)
qed



section \<open>Properties of the visibility tracker\<close>

lemma setActiveRoom_active: "activeRoom (setActiveRoom R v) = R"
  by (simp add: setActiveRoom_def Let_def split: option.splits)

lemma setActiveRoom_none_shadow:
  "activeRoom v = Some p \<Longrightarrow>
     shadow (setActiveRoom None v) = set_room_shade p Dimmed (shadow v)
     \<and> previouslySeen (setActiveRoom None v) = insert p (previouslySeen v)"
  by (simp add: setActiveRoom_def Let_def)

lemma setActiveRoom_seen_mono:
  "r \<in> previouslySeen v \<Longrightarrow> r \<in> previouslySeen (setActiveRoom R v)"
  by (simp add: setActiveRoom_def Let_def split: option.splits)

lemma setActiveRoom_leaves:
  "activeRoom v = Some r \<Longrightarrow> R \<noteq> Some r \<Longrightarrow> r \<in> previouslySeen (setActiveRoom R v)"
  by (auto simp: setActiveRoom_def Let_def split: option.splits)

lemma setActiveRoom_not_unseen:
  assumes "room_state v r \<noteq> Unseen"
  shows "room_state (setActiveRoom R v) r \<noteq> Unseen"
proof (cases "R = Some r")
  case True
  then show ?thesis by (simp add: room_state_def setActiveRoom_active)
next
  case False
  have "r \<in> previouslySeen (setActiveRoom R v)"
  proof (cases "activeRoom v = Some r")
    case True
    then show ?thesis using False by (rule setActiveRoom_leaves)
  next
    case False
    with assms have "r \<in> previouslySeen v" by (simp add: room_state_def split: if_splits)
    then show ?thesis by (rule setActiveRoom_seen_mono)
  qed
  with False show ?thesis by (simp add: room_state_def setActiveRoom_active)
qed

lemma setActiveRoom_not_opaque:
  "shadow v c \<noteq> Opaque \<Longrightarrow> shadow (setActiveRoom R v) c \<noteq> Opaque"
  by (simp add: setActiveRoom_def Let_def set_room_shade_def split: option.splits)

lemma seen_cells_lit_new: "seen_cells_lit new_visibility"
  by (simp add: seen_cells_lit_def new_visibility_def room_state_def)

lemma seen_cells_lit_step:
  assumes "seen_cells_lit v"
  shows "seen_cells_lit (setActiveRoom R v)"
  unfolding seen_cells_lit_def
proof (intro allI impI, elim conjE)
  fix r c
  assume st: "room_state (setActiveRoom R v) r \<noteq> Unseen" and c: "in_room r c"
  show "shadow (setActiveRoom R v) c \<noteq> Opaque"
  proof (cases "room_state v r = Unseen")
    case False
    with assms c have "shadow v c \<noteq> Opaque" unfolding seen_cells_lit_def by blast
    then show ?thesis by (rule setActiveRoom_not_opaque)
  next
    case True
    then have a: "activeRoom v \<noteq> Some r" and p: "r \<notin> previouslySeen v"
      by (simp_all add: room_state_def split: if_splits)
    have "R = Some r"
    proof (rule ccontr)
      assume n: "R \<noteq> Some r"
      have "previouslySeen (setActiveRoom R v) \<subseteq> previouslySeen v \<union> set_option (activeRoom v)"
        by (auto simp: setActiveRoom_def Let_def split: option.splits)
      with a p have "r \<notin> previouslySeen (setActiveRoom R v)" by auto
      with n st show False by (simp add: room_state_def setActiveRoom_active)
    qed
    with a c show ?thesis
      by (simp add: setActiveRoom_def Let_def set_room_shade_def split: option.splits)
  qed
qed

lemma fold_setActiveRoom_not_unseen:
  "room_state v r \<noteq> Unseen \<Longrightarrow> room_state (fold setActiveRoom calls v) r \<noteq> Unseen"
  by (induction calls arbitrary: v) (simp_all add: setActiveRoom_not_unseen)

lemma fold_setActiveRoom_lit:
  "seen_cells_lit v \<Longrightarrow> seen_cells_lit (fold setActiveRoom calls v)"
  by (induction calls arbitrary: v) (simp_all add: seen_cells_lit_step)

text \<open>
  C7. Calling \<open>setActiveRoom\<close> twice in a row with the same argument, in any state of
  the tracker, gives the state (and so the shadow grid) that one call gives. A call
  with no room returns a state in which no room is active; the room that was active, if
  any, is previously seen and every one of its cells is dimmed.
\<close>

theorem setActiveRoom_idempotent_and_none:
  "setActiveRoom R (setActiveRoom R v) = setActiveRoom R v
   \<and> shadow (setActiveRoom R (setActiveRoom R v)) = shadow (setActiveRoom R v)
   \<and> activeRoom (setActiveRoom None v) = None
   \<and> (\<forall>r. room_state (setActiveRoom None v) r \<noteq> Active)
   \<and> (\<forall>p. activeRoom v = Some p \<longrightarrow>
          room_state (setActiveRoom None v) p = PreviouslySeen
          \<and> (\<forall>c. in_room p c \<longrightarrow> shadow (setActiveRoom None v) c = Dimmed))"
proof -
  have idem: "setActiveRoom R (setActiveRoom R v) = setActiveRoom R v"
    using setActiveRoom_active[of R v] by (simp add: setActiveRoom_def[of R "setActiveRoom R v"])
  have none: "activeRoom (setActiveRoom None v) = None" by (rule setActiveRoom_active)
  then have noact: "\<forall>r. room_state (setActiveRoom None v) r \<noteq> Active"
    by (simp add: room_state_def)
  have prev: "room_state (setActiveRoom None v) p = PreviouslySeen
          \<and> (\<forall>c. in_room p c \<longrightarrow> shadow (setActiveRoom None v) c = Dimmed)"
    if "activeRoom v = Some p" for p
    using setActiveRoom_none_shadow[OF that] none
    by (simp add: room_state_def set_room_shade_def)
  show ?thesis using idem none noact prev by simp
qed

theorem setActiveRoom_idempotent_and_none_witness:
  "activeRoom (setActiveRoom (Some example_room3) new_visibility) = Some example_room3
   \<and> in_room example_room3 (1, 1)
   \<and> room_state (setActiveRoom None (setActiveRoom (Some example_room3) new_visibility))
        example_room3 = PreviouslySeen
   \<and> shadow (setActiveRoom None (setActiveRoom (Some example_room3) new_visibility)) (1, 1)
        = Dimmed
   \<and> shadow (setActiveRoom (Some example_room3) new_visibility) (1, 1) = Revealed"
proof -
  have a: "activeRoom (setActiveRoom (Some example_room3) new_visibility) = Some example_room3"
    by (rule setActiveRoom_active)
  have c: "in_room example_room3 (1, 1)"
    by (simp add: in_room_def example_room3_def room_left_def room_right_def room_top_def
        room_bottom_def)
  have r: "shadow (setActiveRoom (Some example_room3) new_visibility) (1, 1) = Revealed"
    using c by (simp add: setActiveRoom_def new_visibility_def set_room_shade_def)
  from setActiveRoom_idempotent_and_none[of None "setActiveRoom (Some example_room3) new_visibility"]
  show ?thesis using a c r by simp
qed

text \<open>
  C8. Along any sequence of \<open>setActiveRoom\<close> calls after the creation of the level, a
  room that has been active is never unseen again: after any further calls it is active
  or previously seen, and none of its cells is opaque.
\<close>

theorem room_visibility_monotonic:
  assumes "v = fold setActiveRoom earlier new_visibility" and "room_state v r = Active"
  shows "(room_state (fold setActiveRoom later v) r = Active
          \<or> room_state (fold setActiveRoom later v) r = PreviouslySeen)
         \<and> (\<forall>c. in_room r c \<longrightarrow> shadow (fold setActiveRoom later v) c \<noteq> Opaque)"
proof -
  have "room_state v r \<noteq> Unseen" using assms(2) by simp
  then have ns: "room_state (fold setActiveRoom later v) r \<noteq> Unseen"
    by (rule fold_setActiveRoom_not_unseen)
  then have st: "room_state (fold setActiveRoom later v) r = Active
          \<or> room_state (fold setActiveRoom later v) r = PreviouslySeen"
    by (cases "room_state (fold setActiveRoom later v) r") simp_all
  have "seen_cells_lit v" unfolding assms(1) using seen_cells_lit_new by (rule fold_setActiveRoom_lit)
  then have "seen_cells_lit (fold setActiveRoom later v)" by (rule fold_setActiveRoom_lit)
  with ns have "\<forall>c. in_room r c \<longrightarrow> shadow (fold setActiveRoom later v) c \<noteq> Opaque"
    unfolding seen_cells_lit_def by blast
  with st show ?thesis by simp
qed

theorem room_visibility_monotonic_witness:
  "setActiveRoom (Some example_room3) new_visibility
     = fold setActiveRoom [Some example_room3] new_visibility
   \<and> room_state (setActiveRoom (Some example_room3) new_visibility) example_room3 = Active
   \<and> in_room example_room3 (1, 1)
   \<and> (room_state (fold setActiveRoom [None, Some example_room7, None]
                    (setActiveRoom (Some example_room3) new_visibility)) example_room3 = Active
       \<or> room_state (fold setActiveRoom [None, Some example_room7, None]
                    (setActiveRoom (Some example_room3) new_visibility)) example_room3
            = PreviouslySeen)
   \<and> shadow (fold setActiveRoom [None, Some example_room7, None]
                (setActiveRoom (Some example_room3) new_visibility)) (1, 1) \<noteq> Opaque"
proof -
  have e: "setActiveRoom (Some example_room3) new_visibility
     = fold setActiveRoom [Some example_room3] new_visibility" by simp
  have a: "room_state (setActiveRoom (Some example_room3) new_visibility) example_room3 = Active"
    by (simp add: room_state_def setActiveRoom_active)
  have c: "in_room example_room3 (1, 1)"
    by (simp add: in_room_def example_room3_def room_left_def room_right_def room_top_def
        room_bottom_def)
  from room_visibility_monotonic[OF e a, of "[None, Some example_room7, None]"]
  show ?thesis using e a c by blast
qed

section \<open>Properties of the scene\<close>

text \<open>
  C9. Once \<open>hasPlayerReachedStairs\<close> is true, every later call of \<open>update\<close>, whatever
  the time, the delta and the player's own update, returns the scene unchanged: the
  player is not updated and the visibility tracker (active room and shadow grid) is not
  touched.
\<close>

theorem update_frozen_after_stairs:
  assumes "hasPlayerReachedStairs s"
  shows "fold (\<lambda>(upd, time, delta). update upd time delta) frames s = s
         \<and> player (fold (\<lambda>(upd, time, delta). update upd time delta) frames s) = player s
         \<and> tilemapVisibility (fold (\<lambda>(upd, time, delta). update upd time delta) frames s)
             = tilemapVisibility s"
proof -
  have "fold (\<lambda>(upd, time, delta). update upd time delta) frames s = s"
    using assms by (induction frames) (simp_all add: update_def split: prod.splits)
  then show ?thesis by simp
qed

theorem update_frozen_after_stairs_witness:
  "hasPlayerReachedStairs example_scene
   \<and> fold (\<lambda>(upd, time, delta). update upd time delta)
        [(\<lambda>p. p\<lparr>sprite_x := 600\<rparr>, 0, 16), (\<lambda>p. p\<lparr>sprite_y := 100\<rparr>, 16, 16)] example_scene
       = example_scene
   \<and> sprite_x (player (update (\<lambda>p. p\<lparr>sprite_x := 600\<rparr>) 0 16
                 (example_scene\<lparr>hasPlayerReachedStairs := False\<rparr>))) = 600
   \<and> activeRoom (tilemapVisibility (update (\<lambda>p. p\<lparr>sprite_x := 600\<rparr>) 0 16
                 (example_scene\<lparr>hasPlayerReachedStairs := False\<rparr>))) = Some example_room7"
proof -
  have h: "hasPlayerReachedStairs example_scene" by (simp add: example_scene_def)
  have u: "sprite_x (player (update (\<lambda>p. p\<lparr>sprite_x := 600\<rparr>) 0 16
                 (example_scene\<lparr>hasPlayerReachedStairs := False\<rparr>))) = 600"
    by (simp add: update_def example_scene_def Let_def)
  have a: "activeRoom (tilemapVisibility (update (\<lambda>p. p\<lparr>sprite_x := 600\<rparr>) 0 16
                 (example_scene\<lparr>hasPlayerReachedStairs := False\<rparr>))) = Some example_room7"
    by (simp add: update_def example_scene_def Let_def setActiveRoom_active getRoomAt_def
        worldToTile_def new_player_def example_dungeon_def in_room_def room_left_def
        room_right_def room_top_def room_bottom_def example_room7_def)
  note t = update_frozen_after_stairs[OF h,
      of "[(\<lambda>p. p\<lparr>sprite_x := 600\<rparr>, 0, 16), (\<lambda>p. p\<lparr>sprite_y := 100\<rparr>, 16, 16)]",
      THEN conjunct1]
  show ?thesis by (rule conjI[OF h conjI[OF t conjI[OF u a]]])
qed

section \<open>Painting keeps a layer free of collision\<close>

lemma layer_frame_refl: "layer_frame l l"
  by (simp add: layer_frame_def)

lemma layer_frame_trans: "layer_frame l l' \<Longrightarrow> layer_frame l' l'' \<Longrightarrow> layer_frame l l''"
  by (simp add: layer_frame_def)

lemma putTileAt_layer_frame: "layer_frame l (putTileAt idx tx ty l)"
  by (auto simp: layer_frame_def putTileAt_def no_collision_def fun_eq_iff)

lemma put_row_layer_frame: "layer_frame l (put_row ts tx ty l)"
proof (induction ts arbitrary: tx l)
  case Nil
  then show ?case by (simp add: layer_frame_refl)
next
  case (Cons t ts)
  show ?case using putTileAt_layer_frame[of l t tx ty] Cons.IH[of "putTileAt t tx ty l" "tx + 1"]
    by (simp add: layer_frame_trans)
qed

lemma put_rows_layer_frame: "layer_frame l (put_rows w rws tx ty l)"
proof (induction rws arbitrary: ty l)
  case Nil
  then show ?case by (simp add: layer_frame_refl)
next
  case (Cons rw rws)
  show ?case
    using put_row_layer_frame[of l "take w rw" tx ty]
      Cons.IH[of "put_row (take w rw) tx ty l" "ty + 1"]
    by (simp add: layer_frame_trans)
qed

lemma putTilesAt_layer_frame: "layer_frame l (putTilesAt arr tx ty l)"
  by (cases arr)
     (simp_all add: putTilesAt_def layer_frame_refl put_rows_layer_frame del: put_rows.simps)

lemma weightedRandomize_layer_frame:
  "layer_frame (fst lg) (fst (weightedRandomize wis tx ty w h lg))"
  by (simp add: layer_frame_def weightedRandomize_frame no_collision_def)

lemma weightedRandomize_layer_frame_from:
  "layer_frame l (fst lg) \<Longrightarrow> layer_frame l (fst (weightedRandomize wis tx ty w h lg))"
  by (erule layer_frame_trans) (rule weightedRandomize_layer_frame)

lemma putTileAt_layer_frame_from:
  "layer_frame l l' \<Longrightarrow> layer_frame l (putTileAt idx tx ty l')"
  by (erule layer_frame_trans) (rule putTileAt_layer_frame)

lemma putTilesAt_layer_frame_from:
  "layer_frame l l' \<Longrightarrow> layer_frame l (putTilesAt arr tx ty l')"
  by (erule layer_frame_trans) (rule putTilesAt_layer_frame)

lemma paint_walls_layer_frame: "layer_frame (fst lg) (fst (paint_walls T r lg))"
  unfolding paint_walls_def Let_def
  by (intro weightedRandomize_layer_frame_from putTileAt_layer_frame_from)
     (simp add: weightedRandomize_layer_frame_from putTileAt_layer_frame_from layer_frame_refl)

lemma paint_door_layer_frame: "layer_frame l (paint_door T r d l)"
  by (simp add: paint_door_def putTilesAt_layer_frame layer_frame_refl)

lemma fold_paint_door_layer_frame: "layer_frame l (fold (paint_door T r) ds l)"
proof (induction ds arbitrary: l)
  case Nil
  then show ?case by (simp add: layer_frame_refl)
next
  case (Cons d ds)
  show ?case using paint_door_layer_frame[of l T r d] Cons.IH[of "paint_door T r d l"]
    by (simp add: layer_frame_trans)
qed

lemma paint_room_layer_frame: "layer_frame (fst lg) (fst (paint_room T r lg))"
  using paint_walls_layer_frame[of lg T r]
    fold_paint_door_layer_frame[of "fst (paint_walls T r lg)" T r "room_doors r"]
  by (simp add: paint_room_def Let_def layer_frame_trans)

lemma paint_rooms_layer_frame: "layer_frame (fst lg) (fst (paint_rooms T rs lg))"
  unfolding paint_rooms_def
proof (induction rs arbitrary: lg)
  case Nil
  then show ?case by (simp add: layer_frame_refl)
next
  case (Cons r rs)
  show ?case using paint_room_layer_frame[of lg T r] Cons.IH[of "paint_room T r lg"]
    by (simp add: layer_frame_trans)
qed

lemma place_prop_layer_frame: "layer_frame (fst lg) (fst (place_prop T r lg))"
proof -
  obtain rand g1 where r: "math_random (snd lg) = (rand, g1)" by (cases "math_random (snd lg)")
  obtain px g2 where p: "math_between (room_left r + 2) (room_right r - 2) g1 = (px, g2)"
    by (cases "math_between (room_left r + 2) (room_right r - 2) g1")
  obtain py g3 where q: "math_between (room_top r + 2) (room_bottom r - 2) g2 = (py, g3)"
    by (cases "math_between (room_top r + 2) (room_bottom r - 2) g2")
  have pot: "layer_frame (fst lg) (fst (weightedRandomize (POT T) px py 1 1 (fst lg, g3)))"
    using weightedRandomize_layer_frame[of "(fst lg, g3)"] by simp
  show ?thesis
    by (simp add: place_prop_def Let_def r p q pot putTileAt_layer_frame
        putTilesAt_layer_frame_from putTilesAt_layer_frame)
qed

lemma place_props_layer_frame: "layer_frame (fst lg) (fst (place_props T rs lg))"
  unfolding place_props_def
proof (induction rs arbitrary: lg)
  case Nil
  then show ?case by (simp add: layer_frame_refl)
next
  case (Cons r rs)
  show ?case using place_prop_layer_frame[of lg T r] Cons.IH[of "place_prop T r lg"]
    by (simp add: layer_frame_trans)
qed

lemma no_collision_blank: "no_collision (createBlankLayer w h)"
  by (simp add: no_collision_def createBlankLayer_def)

lemma fill_layer_frame: "layer_frame l (fill idx l)"
  by (auto simp: layer_frame_def fill_def no_collision_def)

lemma setCollisionByExclusion_cells:
  "lwidth (setCollisionByExclusion idxs l) = lwidth l
   \<and> lheight (setCollisionByExclusion idxs l) = lheight l
   \<and> tiles (setCollisionByExclusion idxs l) = tiles l
   \<and> callbacks (setCollisionByExclusion idxs l) = callbacks l"
  by (simp add: setCollisionByExclusion_def)

lemma setCollisionByExclusion_collides:
  "no_collision l \<Longrightarrow>
     collides (setCollisionByExclusion idxs l) c
       = (isInLayerBounds (fst c) (snd c) l \<and> tiles l c \<notin> set idxs)"
  by (simp add: setCollisionByExclusion_def no_collision_def)

section \<open>Properties of level creation\<close>

lemma paint_walls_rng_ok: "rng_ok (snd lg) \<Longrightarrow> rng_ok (snd (paint_walls T r lg))"
  by (simp add: paint_walls_def Let_def weightedRandomize_rng_ok)

lemma paint_rooms_rng_ok: "rng_ok (snd lg) \<Longrightarrow> rng_ok (snd (paint_rooms T rs lg))"
  unfolding paint_rooms_def
proof (induction rs arbitrary: lg)
  case Nil
  then show ?case by simp
next
  case (Cons r rs)
  have "rng_ok (snd (paint_room T r lg))"
    using Cons.prems by (simp add: paint_room_def Let_def paint_walls_rng_ok)
  then show ?case using Cons.IH[of "paint_room T r lg"] by simp
qed

text \<open>
  On a dungeon of at least two rooms \<open>create\<close> returns a scene; its layers are the
  painted layers with the collision and the stairs callback declared.
\<close>

lemma create_returns:
  assumes n: "2 \<le> length (rooms d)" and g: "rng_ok g"
  shows "\<exists>ground1 g1 e props leftover g2 stuff2 g3 s'.
           paint_rooms T (rooms d)
             (fill (BLANK T) (createBlankLayer (dwidth d) (dheight d)), g) = (ground1, g1)
         \<and> classify_rooms (rooms d) g1 = ((Some (rooms d ! 0), Some e, props), g2)
         \<and> mset (rooms d) = mset (rooms d ! 0 # e # props @ leftover)
         \<and> rng_ok g2
         \<and> place_props T props
             (putTileAt (STAIRS T) (room_centerX e) (room_centerY e)
                (createBlankLayer (dwidth d) (dheight d)), g2) = (stuff2, g3)
         \<and> create T d g s = Inr (s', g3)
         \<and> groundLayer s' = setCollisionByExclusion walkable ground1
         \<and> stuffLayer s' = setTileIndexCallback (STAIRS T) ReachStairs
                              (setCollisionByExclusion walkable stuff2)
         \<and> hasPlayerReachedStairs s' = False \<and> camera s' = camera s
         \<and> level s' = level s + 1 \<and> dungeon s' = d"
proof -
  let ?blank = "createBlankLayer (dwidth d) (dheight d)"
  obtain ground1 g1 where
    pr: "paint_rooms T (rooms d) (fill (BLANK T) ?blank, g) = (ground1, g1)"
    by (cases "paint_rooms T (rooms d) (fill (BLANK T) ?blank, g)")
  have g1: "rng_ok g1" using paint_rooms_rng_ok[of "(fill (BLANK T) ?blank, g)" T "rooms d"] g pr
    by simp
  from classify_rooms_shape[OF n g1] obtain e props leftover g2 where
    cl: "classify_rooms (rooms d) g1 = ((Some (rooms d ! 0), Some e, props), g2)"
    and part: "mset (rooms d) = mset (rooms d ! 0 # e # props @ leftover)"
    and g2: "rng_ok g2"
    by blast
  obtain stuff2 g3 where
    pp: "place_props T props
           (putTileAt (STAIRS T) (room_centerX e) (room_centerY e) ?blank, g2) = (stuff2, g3)"
    by (cases "place_props T props
           (putTileAt (STAIRS T) (room_centerX e) (room_centerY e) ?blank, g2)")
  define s' where "s' =
     \<lparr>level = level s + 1, hasPlayerReachedStairs = False, dungeon = d,
      groundLayer = setCollisionByExclusion walkable ground1,
      stuffLayer = setTileIndexCallback (STAIRS T) ReachStairs
                     (setCollisionByExclusion walkable stuff2),
      tilemapVisibility = new_visibility,
      player = new_player (real_of_int (room_centerX (rooms d ! 0) * 48))
                          (real_of_int (room_centerY (rooms d ! 0) * 48)),
      camera = camera s\<rparr>"
  have cr: "create T d g s = Inr (s', g3)"
    by (simp add: create_def Let_def pr cl pp s'_def)
  show ?thesis
    apply (rule exI[of _ ground1], rule exI[of _ g1], rule exI[of _ e], rule exI[of _ props],
        rule exI[of _ leftover], rule exI[of _ g2], rule exI[of _ stuff2], rule exI[of _ g3],
        rule exI[of _ s'])
    using pr cl part g2 pp cr by (simp add: s'_def)
qed

text \<open>With fewer than two rooms there is no end room, and \<open>create\<close> throws.\<close>

lemma create_throws_without_end_room:
  assumes "length (rooms d) \<le> 1"
  shows "create T d g s = Inl TypeError"
proof -
  have "drop 1 (rooms d) = []" using assms by simp
  then have none: "fst (snd (fst (classify_rooms (rooms d) g1))) = None" for g1
    by (simp add: classify_rooms_def removeRandomElement_def Let_def split: prod.splits)
  obtain ground1 g1 where pr: "paint_rooms T (rooms d)
      (fill (BLANK T) (createBlankLayer (dwidth d) (dheight d)), g) = (ground1, g1)"
    by (cases "paint_rooms T (rooms d)
      (fill (BLANK T) (createBlankLayer (dwidth d) (dheight d)), g)")
  obtain st e props g2 where cl: "classify_rooms (rooms d) g1 = ((st, e, props), g2)"
    by (metis surj_pair)
  have "e = None" using none[of g1] cl by simp
  then show ?thesis by (simp add: create_def Let_def pr cl)
qed

lemma tile_overlap_disarmed:
  assumes "\<forall>i cb. callbacks (stuffLayer s) i = Some cb \<longrightarrow> cb = Noop"
  shows "tile_overlap T c s = s"
proof (cases "callbacks (stuffLayer s) (tiles (stuffLayer s) c)")
  case None
  then show ?thesis by (simp add: tile_overlap_def)
next
  case (Some cb)
  with assms have "cb = Noop" by blast
  with Some show ?thesis by (simp add: tile_overlap_def)
qed

lemma fold_tile_overlap_disarmed:
  assumes "\<forall>i cb. callbacks (stuffLayer s) i = Some cb \<longrightarrow> cb = Noop"
  shows "fold (tile_overlap T) cells s = s"
  by (induction cells) (simp_all add: tile_overlap_disarmed[OF assms])

lemma stairs_callback_disarms:
  assumes "callbacks (stuffLayer s) = [STAIRS T \<mapsto> ReachStairs]"
  shows "\<forall>i cb. callbacks (stuffLayer (stairs_callback T s)) i = Some cb \<longrightarrow> cb = Noop"
  using assms by (simp add: stairs_callback_def Let_def setTileIndexCallback_def)

lemma tile_overlap_armed:
  assumes "callbacks (stuffLayer s) = [STAIRS T \<mapsto> ReachStairs]"
  shows "tile_overlap T c s = s \<or> tile_overlap T c s = stairs_callback T s"
  using assms by (simp add: tile_overlap_def)

lemma fold_tile_overlap_armed:
  assumes "callbacks (stuffLayer s) = [STAIRS T \<mapsto> ReachStairs]"
  shows "fold (tile_overlap T) cells s = s \<or> fold (tile_overlap T) cells s = stairs_callback T s"
proof (induction cells)
  case Nil
  then show ?case by simp
next
  case (Cons c cells)
  from tile_overlap_armed[OF assms, where c = c] show ?case
  proof
    assume "tile_overlap T c s = s"
    with Cons.IH show ?thesis by simp
  next
    assume "tile_overlap T c s = stairs_callback T s"
    then show ?thesis
      using fold_tile_overlap_disarmed[OF stairs_callback_disarms[OF assms], where cells = cells] by simp
  qed
qed

lemma create_callbacks:
  assumes "2 \<le> length (rooms d)" "rng_ok g"
  shows "\<exists>s0 g'. create T d g s = Inr (s0, g')
           \<and> callbacks (stuffLayer s0) = [STAIRS T \<mapsto> ReachStairs]"
proof -
  let ?blank = "createBlankLayer (dwidth d) (dheight d)"
  from create_returns[OF assms, where T = T and s = s] obtain e props g2 stuff2 g3 s' where
    pp: "place_props T props
           (putTileAt (STAIRS T) (room_centerX e) (room_centerY e) ?blank, g2) = (stuff2, g3)"
    and cr: "create T d g s = Inr (s', g3)"
    and st: "stuffLayer s' = setTileIndexCallback (STAIRS T) ReachStairs
                              (setCollisionByExclusion walkable stuff2)"
    by blast
  have "layer_frame ?blank (putTileAt (STAIRS T) (room_centerX e) (room_centerY e) ?blank)"
    by (rule putTileAt_layer_frame)
  moreover have "layer_frame (putTileAt (STAIRS T) (room_centerX e) (room_centerY e) ?blank) stuff2"
    using place_props_layer_frame[of
        "(putTileAt (STAIRS T) (room_centerX e) (room_centerY e) ?blank, g2)" T props] pp
    by simp
  ultimately have "layer_frame ?blank stuff2" by (rule layer_frame_trans)
  then have "callbacks stuff2 = Map.empty"
    by (simp add: layer_frame_def createBlankLayer_def)
  then have "callbacks (stuffLayer s') = [STAIRS T \<mapsto> ReachStairs]"
    by (simp add: st setTileIndexCallback_def setCollisionByExclusion_cells)
  with cr show ?thesis by blast
qed

text \<open>
  C10. In a created level the stairs callback is registered for the stairs index and
  runs when the player overlaps a tile with that index. Its first run replaces it by the
  callback that does nothing (and sets
  \<open>hasPlayerReachedStairs\<close>), so whatever tiles the player overlaps afterwards, in any
  number, the scene is either still the created one or the one after that single run:
  the fade and its restart listener are started at most once, and after the run no
  overlap changes the scene.
\<close>

theorem stairs_callback_fires_once:
  assumes "2 \<le> length (rooms d)" "rng_ok g"
  shows "\<exists>s0 g'. create T d g s = Inr (s0, g')
           \<and> callbacks (stuffLayer s0) (STAIRS T) = Some ReachStairs
           \<and> (\<forall>c. tiles (stuffLayer s0) c = STAIRS T
                  \<longrightarrow> tile_overlap T c s0 = stairs_callback T s0)
           \<and> callbacks (stuffLayer (stairs_callback T s0)) (STAIRS T) = Some Noop
           \<and> hasPlayerReachedStairs (stairs_callback T s0)
           \<and> fadesStarted (camera (stairs_callback T s0)) = fadesStarted (camera s0) + 1
           \<and> (\<forall>cells. fold (tile_overlap T) cells (stairs_callback T s0) = stairs_callback T s0)
           \<and> (\<forall>cells. fold (tile_overlap T) cells s0 = s0
                       \<or> fold (tile_overlap T) cells s0 = stairs_callback T s0)
           \<and> (\<forall>cells. fadesStarted (camera (fold (tile_overlap T) cells s0))
                         \<le> fadesStarted (camera s0) + 1
                     \<and> fadeCompleteListeners (camera (fold (tile_overlap T) cells s0))
                         \<le> fadeCompleteListeners (camera s0) + 1)"
proof -
  from create_callbacks[OF assms, where T = T and s = s] obtain s0 g' where
    cr: "create T d g s = Inr (s0, g')"
    and cb: "callbacks (stuffLayer s0) = [STAIRS T \<mapsto> ReachStairs]"
    by blast
  have a: "callbacks (stuffLayer s0) (STAIRS T) = Some ReachStairs" using cb by simp
  have fire: "\<forall>c. tiles (stuffLayer s0) c = STAIRS T
                  \<longrightarrow> tile_overlap T c s0 = stairs_callback T s0"
    using a by (simp add: tile_overlap_def)
  have b: "callbacks (stuffLayer (stairs_callback T s0)) (STAIRS T) = Some Noop"
    by (simp add: stairs_callback_def Let_def setTileIndexCallback_def)
  have c: "hasPlayerReachedStairs (stairs_callback T s0)"
    by (simp add: stairs_callback_def Let_def)
  have f: "fadesStarted (camera (stairs_callback T s0)) = fadesStarted (camera s0) + 1"
    "fadeCompleteListeners (camera (stairs_callback T s0)) = fadeCompleteListeners (camera s0) + 1"
    by (simp_all add: stairs_callback_def Let_def)
  have once: "fold (tile_overlap T) cells (stairs_callback T s0) = stairs_callback T s0" for cells
    by (rule fold_tile_overlap_disarmed[OF stairs_callback_disarms[OF cb]])
  have two: "fold (tile_overlap T) cells s0 = s0
             \<or> fold (tile_overlap T) cells s0 = stairs_callback T s0" for cells
    by (rule fold_tile_overlap_armed[OF cb])
  have le: "fadesStarted (camera (fold (tile_overlap T) cells s0)) \<le> fadesStarted (camera s0) + 1
            \<and> fadeCompleteListeners (camera (fold (tile_overlap T) cells s0))
                \<le> fadeCompleteListeners (camera s0) + 1" for cells
    using two[of cells] f by auto
  show ?thesis
    apply (rule exI[of _ s0], rule exI[of _ g'])
    using cr a fire b c f(1) once two le by blast
qed

theorem stairs_callback_fires_once_witness:
  "2 \<le> length (rooms example_dungeon) \<and> rng_ok (\<lambda>n. 1 / 2)
   \<and> (\<exists>s0 g'. create example_tiles example_dungeon (\<lambda>n. 1 / 2) example_scene = Inr (s0, g')
           \<and> callbacks (stuffLayer s0) (STAIRS example_tiles) = Some ReachStairs
           \<and> (\<forall>c. tiles (stuffLayer s0) c = STAIRS example_tiles
                  \<longrightarrow> tile_overlap example_tiles c s0 = stairs_callback example_tiles s0)
           \<and> callbacks (stuffLayer (stairs_callback example_tiles s0)) (STAIRS example_tiles)
               = Some Noop
           \<and> hasPlayerReachedStairs (stairs_callback example_tiles s0)
           \<and> fadesStarted (camera (stairs_callback example_tiles s0))
               = fadesStarted (camera s0) + 1
           \<and> (\<forall>cells. fold (tile_overlap example_tiles) cells (stairs_callback example_tiles s0)
                        = stairs_callback example_tiles s0)
           \<and> (\<forall>cells. fold (tile_overlap example_tiles) cells s0 = s0
                       \<or> fold (tile_overlap example_tiles) cells s0
                           = stairs_callback example_tiles s0)
           \<and> (\<forall>cells. fadesStarted (camera (fold (tile_overlap example_tiles) cells s0))
                         \<le> fadesStarted (camera s0) + 1
                     \<and> fadeCompleteListeners (camera (fold (tile_overlap example_tiles) cells s0))
                         \<le> fadeCompleteListeners (camera s0) + 1))"
proof -
  have h1: "2 \<le> length (rooms example_dungeon)" by (simp add: example_dungeon_def)
  have h2: "rng_ok (\<lambda>n. 1 / 2)" by (simp add: rng_ok_def)
  note c = stairs_callback_fires_once[OF h1 h2, of example_tiles example_scene]
  show ?thesis by (rule conjI[OF h1 conjI[OF h2 c]])
qed

lemma setCollisionByExclusion_exact:
  assumes "no_collision l"
  shows "collides (setCollisionByExclusion idxs l) c
           = (isInLayerBounds (fst c) (snd c) (setCollisionByExclusion idxs l)
              \<and> tiles (setCollisionByExclusion idxs l) c \<notin> set idxs)"
  using setCollisionByExclusion_collides[OF assms, of idxs c]
  by (simp add: isInLayerBounds_def setCollisionByExclusion_cells)

text \<open>
  C6. After \<open>create\<close>, on the ground layer and on the stuff layer alike, a cell of the
  grid is collidable exactly when its tile index is outside the walkable set
  \<open>{-1, 6, 7, 8, 26}\<close>: every cell with an index outside the set collides, and no cell with
  an index in the set does.
\<close>

theorem collision_by_exclusion:
  assumes "2 \<le> length (rooms d)" "rng_ok g"
  shows "\<exists>s' g'. create T d g s = Inr (s', g')
           \<and> (\<forall>c. collides (groundLayer s') c
                  = (isInLayerBounds (fst c) (snd c) (groundLayer s')
                     \<and> tiles (groundLayer s') c \<notin> {- 1, 6, 7, 8, 26}))
           \<and> (\<forall>c. collides (stuffLayer s') c
                  = (isInLayerBounds (fst c) (snd c) (stuffLayer s')
                     \<and> tiles (stuffLayer s') c \<notin> {- 1, 6, 7, 8, 26}))"
proof -
  let ?blank = "createBlankLayer (dwidth d) (dheight d)"
  from create_returns[OF assms, where T = T and s = s] obtain ground1 g1 e props g2 stuff2 g3 s'
    where pr: "paint_rooms T (rooms d) (fill (BLANK T) ?blank, g) = (ground1, g1)"
    and pp: "place_props T props
           (putTileAt (STAIRS T) (room_centerX e) (room_centerY e) ?blank, g2) = (stuff2, g3)"
    and cr: "create T d g s = Inr (s', g3)"
    and gr: "groundLayer s' = setCollisionByExclusion walkable ground1"
    and st: "stuffLayer s' = setTileIndexCallback (STAIRS T) ReachStairs
                              (setCollisionByExclusion walkable stuff2)"
    by blast
  have w: "set walkable = {- 1, 6, 7, 8, 26}" by (simp add: walkable_def)
  have "layer_frame ?blank (fill (BLANK T) ?blank)" by (rule fill_layer_frame)
  moreover have "layer_frame (fill (BLANK T) ?blank) ground1"
    using paint_rooms_layer_frame[of "(fill (BLANK T) ?blank, g)" T "rooms d"] pr by simp
  ultimately have "layer_frame ?blank ground1" by (rule layer_frame_trans)
  then have ng: "no_collision ground1" using no_collision_blank by (simp add: layer_frame_def)
  have "layer_frame ?blank (putTileAt (STAIRS T) (room_centerX e) (room_centerY e) ?blank)"
    by (rule putTileAt_layer_frame)
  moreover have "layer_frame (putTileAt (STAIRS T) (room_centerX e) (room_centerY e) ?blank) stuff2"
    using place_props_layer_frame[of
        "(putTileAt (STAIRS T) (room_centerX e) (room_centerY e) ?blank, g2)" T props] pp
    by simp
  ultimately have "layer_frame ?blank stuff2" by (rule layer_frame_trans)
  then have ns: "no_collision stuff2" using no_collision_blank by (simp add: layer_frame_def)
  have G: "collides (groundLayer s') c
                  = (isInLayerBounds (fst c) (snd c) (groundLayer s')
                     \<and> tiles (groundLayer s') c \<notin> {- 1, 6, 7, 8, 26})" for c
    unfolding gr using setCollisionByExclusion_exact[OF ng, of walkable c] by (simp only: w)
  have S: "collides (stuffLayer s') c
                  = (isInLayerBounds (fst c) (snd c) (stuffLayer s')
                     \<and> tiles (stuffLayer s') c \<notin> {- 1, 6, 7, 8, 26})" for c
    unfolding st using setCollisionByExclusion_exact[OF ns, of walkable c]
    by (simp add: w setTileIndexCallback_def isInLayerBounds_def)
  show ?thesis
    apply (rule exI[of _ s'], rule exI[of _ g3])
    using cr G S by blast
qed

theorem collision_by_exclusion_witness:
  "2 \<le> length (rooms example_dungeon) \<and> rng_ok (\<lambda>n. 1 / 2)
   \<and> (\<exists>s' g'. create example_tiles example_dungeon (\<lambda>n. 1 / 2) example_scene = Inr (s', g')
           \<and> (\<forall>c. collides (groundLayer s') c
                  = (isInLayerBounds (fst c) (snd c) (groundLayer s')
                     \<and> tiles (groundLayer s') c \<notin> {- 1, 6, 7, 8, 26}))
           \<and> (\<forall>c. collides (stuffLayer s') c
                  = (isInLayerBounds (fst c) (snd c) (stuffLayer s')
                     \<and> tiles (stuffLayer s') c \<notin> {- 1, 6, 7, 8, 26})))"
proof -
  have h1: "2 \<le> length (rooms example_dungeon)" by (simp add: example_dungeon_def)
  have h2: "rng_ok (\<lambda>n. 1 / 2)" by (simp add: rng_ok_def)
  note c = collision_by_exclusion[OF h1 h2, of example_tiles example_scene]
  show ?thesis by (rule conjI[OF h1 conjI[OF h2 c]])
qed

section \<open>Properties of double-precision rounding\<close>

lemma binade_up_eq:
  "2 ^ e \<le> a \<Longrightarrow> a < 2 ^ Suc e \<Longrightarrow> e \<le> k \<Longrightarrow> binade_up k a = int e"
proof (induction k arbitrary: a e)
  case 0
  then show ?case by simp
next
  case (Suc k)
  show ?case
  proof (cases e)
    case 0
    with Suc.prems show ?thesis by simp
  next
    case (Suc e')
    have one: "(1::real) \<le> 2 ^ e'" by simp
    from Suc Suc.prems have h: "2 ^ e' \<le> a / 2" "a / 2 < 2 ^ Suc e'" "e' \<le> k"
      by (simp_all add: field_simps)
    from h(1) one have "\<not> a < 2" by linarith
    then show ?thesis using Suc.IH[OF h] Suc by simp
  qed
qed

lemma round_even_le: "y \<le> real_of_int K \<Longrightarrow> round_even y \<le> K"
proof -
  assume y: "y \<le> real_of_int K"
  then have f: "\<lfloor>y\<rfloor> \<le> K" by (simp add: floor_le_iff)
  show ?thesis
  proof (cases "\<lfloor>y\<rfloor> = K")
    case True
    with y have "y - real_of_int \<lfloor>y\<rfloor> \<le> 0" by simp
    then show ?thesis using True by (simp add: round_even_def Let_def)
  next
    case False
    with f have "\<lfloor>y\<rfloor> + 1 \<le> K" by simp
    then show ?thesis by (simp add: round_even_def Let_def)
  qed
qed

lemma round_even_ge: "real_of_int K \<le> y \<Longrightarrow> K \<le> round_even y"
proof -
  assume "real_of_int K \<le> y"
  then have "K \<le> \<lfloor>y\<rfloor>" by (simp add: le_floor_iff)
  then show ?thesis by (simp add: round_even_def Let_def)
qed

lemma round_double_pos_le:
  assumes "0 < x" "x \<le> real_of_int m"
  shows "round_double x \<le> real_of_int m"
proof -
  define s :: real where "s = 2 ^ nat (52 - binade \<bar>x\<bar>)"
  have s: "0 < s" by (simp add: s_def)
  have "s = real_of_int (2 ^ nat (52 - binade \<bar>x\<bar>))" by (simp add: s_def)
  then obtain S :: int where S: "s = real_of_int S" by blast
  have "\<bar>x\<bar> * s \<le> real_of_int (m * S)" using assms s S by (simp add: mult_right_mono)
  then have "round_even (\<bar>x\<bar> * s) \<le> m * S" by (rule round_even_le)
  then have "real_of_int (round_even (\<bar>x\<bar> * s)) \<le> real_of_int m * s"
    unfolding S by (metis of_int_le_iff of_int_mult)
  then have "real_of_int (round_even (\<bar>x\<bar> * s)) / s \<le> real_of_int m"
    using s by (simp add: field_simps)
  then show ?thesis using assms(1) by (simp add: round_double_def Let_def s_def)
qed

lemma round_double_pos_ge:
  assumes "0 < x" "real_of_int m \<le> x"
  shows "real_of_int m \<le> round_double x"
proof -
  define s :: real where "s = 2 ^ nat (52 - binade \<bar>x\<bar>)"
  have s: "0 < s" by (simp add: s_def)
  have "s = real_of_int (2 ^ nat (52 - binade \<bar>x\<bar>))" by (simp add: s_def)
  then obtain S :: int where S: "s = real_of_int S" by blast
  have "real_of_int (m * S) \<le> \<bar>x\<bar> * s" using assms s S by (simp add: mult_right_mono)
  then have "m * S \<le> round_even (\<bar>x\<bar> * s)" by (rule round_even_ge)
  then have "real_of_int m * s \<le> real_of_int (round_even (\<bar>x\<bar> * s))"
    unfolding S by (metis of_int_le_iff of_int_mult)
  then have "real_of_int m \<le> real_of_int (round_even (\<bar>x\<bar> * s)) / s"
    using s by (simp add: field_simps)
  then show ?thesis using assms(1) by (simp add: round_double_def Let_def s_def)
qed

lemma round_double_minus: "round_double (- x) = - round_double x"
  by (simp add: round_double_def Let_def sgn_minus)

text \<open>Rounding never crosses an integer.\<close>

lemma round_double_le_int: "x \<le> real_of_int m \<Longrightarrow> round_double x \<le> real_of_int m"
proof -
  assume le: "x \<le> real_of_int m"
  consider "x = 0" | "0 < x" | "x < 0" by linarith
  then show ?thesis
  proof cases
    case 1
    with le show ?thesis by (simp add: round_double_def)
  next
    case 2
    then show ?thesis using le by (rule round_double_pos_le)
  next
    case 3
    then have "0 < - x" "real_of_int (- m) \<le> - x" using le by simp_all
    then have "real_of_int (- m) \<le> round_double (- x)" by (rule round_double_pos_ge)
    then show ?thesis by (simp add: round_double_minus)
  qed
qed

lemma round_double_ge_int: "real_of_int m \<le> x \<Longrightarrow> real_of_int m \<le> round_double x"
proof -
  assume "real_of_int m \<le> x"
  then have "- x \<le> real_of_int (- m)" by simp
  then have "round_double (- x) \<le> real_of_int (- m)" by (rule round_double_le_int)
  then show ?thesis by (simp add: round_double_minus)
qed

text \<open>Rounding at a value of known binade, and the four roundings of the example.\<close>

lemma round_double_at:
  assumes "2 ^ e \<le> x" "x < 2 ^ Suc e" "e \<le> 52"
  shows "round_double x = real_of_int (round_even (x * 2 ^ (52 - e))) / 2 ^ (52 - e)"
proof -
  have one: "(1::real) \<le> 2 ^ e" by simp
  with assms(1) have x: "1 \<le> x" by linarith
  then have "binade \<bar>x\<bar> = int e"
    using assms by (simp add: binade_def binade_up_eq)
  moreover have "nat (52 - int e) = 52 - e" using assms(3) by simp
  ultimately show ?thesis using x by (simp add: round_double_def Let_def)
qed

lemma product_rounds_down: "round_double ((1 - 1 / 2 ^ 52) * 3) = 3 - 1 / 2 ^ 50"
proof -
  have "round_even ((1 - 1 / 2 ^ 52) * 3 * 2 ^ (52 - 1)) = 3 * 2 ^ 51 - 2"
    by (simp add: round_even_def Let_def)
  then show ?thesis using round_double_at[of 1 "(1 - 1 / 2 ^ 52) * 3"] by simp
qed

lemma sum_rounds_up: "round_double (3 - 1 / 2 ^ 50 + 12) = 15"
proof -
  have "round_even ((3 - 1 / 2 ^ 50 + 12) * 2 ^ (52 - 3)) = 15 * 2 ^ 49"
    by (simp add: round_even_def Let_def)
  then show ?thesis using round_double_at[of 3 "3 - 1 / 2 ^ 50 + 12"] by simp
qed

lemma half_product: "round_double (1 / 2 * 5) = 5 / 2"
proof -
  have "round_even (1 / 2 * 5 * 2 ^ (52 - 1)) = 5 * 2 ^ 50"
    by (simp add: round_even_def Let_def)
  then show ?thesis using round_double_at[of 1 "1 / 2 * 5"] by simp
qed

lemma half_sum: "round_double (5 / 2 + 3) = 11 / 2"
proof -
  have "round_even ((5 / 2 + 3) * 2 ^ (52 - 2)) = 11 * 2 ^ 49"
    by (simp add: round_even_def Let_def)
  then show ?thesis using round_double_at[of 2 "5 / 2 + 3"] by simp
qed

section \<open>Properties of prop placement\<close>

lemma math_between_eq:
  "math_between lo hi g =
     (\<lfloor>round_double (round_double (g 0 * real_of_int (hi - lo + 1)) + real_of_int lo)\<rfloor>,
      \<lambda>n. g (Suc n))"
  by (simp add: math_between_def math_random_def)

text \<open>
  With a draw in \<open>[0, 1)\<close> the product stays below the number of values, but the sum with
  \<open>min\<close> is rounded once more: the result lies between \<open>min\<close> and \<open>max + 1\<close>.
\<close>

lemma math_between_range:
  assumes "0 \<le> g 0" "g 0 < 1" "lo \<le> hi"
  shows "lo \<le> fst (math_between lo hi g) \<and> fst (math_between lo hi g) \<le> hi + 1"
proof -
  define n where "n = hi - lo + 1"
  define p where "p = round_double (g 0 * real_of_int n)"
  have n: "0 < real_of_int n" using assms(3) by (simp add: n_def)
  have "real_of_int 0 \<le> g 0 * real_of_int n" using assms(1) n by simp
  then have p0: "real_of_int 0 \<le> p" unfolding p_def by (rule round_double_ge_int)
  have "g 0 * real_of_int n \<le> real_of_int n"
    using assms(1,2) n by (simp add: mult_left_le_one_le)
  then have pn: "p \<le> real_of_int n" unfolding p_def by (rule round_double_le_int)
  have "real_of_int lo \<le> p + real_of_int lo" using p0 by simp
  then have lo: "real_of_int lo \<le> round_double (p + real_of_int lo)"
    by (rule round_double_ge_int)
  have "p + real_of_int lo \<le> real_of_int (hi + 1)" using pn by (simp add: n_def)
  then have hi: "round_double (p + real_of_int lo) \<le> real_of_int (hi + 1)"
    by (rule round_double_le_int)
  have "lo \<le> \<lfloor>round_double (p + real_of_int lo)\<rfloor>" using lo by (simp add: le_floor_iff)
  moreover have "\<lfloor>round_double (p + real_of_int lo)\<rfloor> \<le> hi + 1"
    using hi by (simp add: floor_le_iff)
  ultimately show ?thesis by (simp add: math_between_eq p_def n_def)
qed

text \<open>
  The pot branch of \<open>place_prop\<close>: one weighted draw at a cell between \<open>left + 2\<close> and
  \<open>right - 1\<close>, \<open>top + 2\<close> and \<open>bottom - 1\<close>.
\<close>

lemma place_prop_pot:
  assumes g: "rng_ok g" and size: "5 \<le> room_width r" "5 \<le> room_height r"
    and pot: "0.25 < g 0" "g 0 \<le> 0.5"
  shows "\<exists>px py g3.
           place_prop T r (l, g) = weightedRandomize (POT T) px py 1 1 (l, g3) \<and> rng_ok g3
         \<and> px = fst (math_between (room_left r + 2) (room_right r - 2) (\<lambda>n. g (Suc n)))
         \<and> py = fst (math_between (room_top r + 2) (room_bottom r - 2) (\<lambda>n. g (Suc (Suc n))))
         \<and> room_left r + 2 \<le> px \<and> px \<le> room_right r - 1
         \<and> room_top r + 2 \<le> py \<and> py \<le> room_bottom r - 1"
proof -
  note rd = room_left_def room_right_def room_top_def room_bottom_def
  define g1 where "g1 = (\<lambda>n. g (Suc n))"
  define g2 where "g2 = (\<lambda>n. g (Suc (Suc n)))"
  define g3 where "g3 = (\<lambda>n. g (Suc (Suc (Suc n))))"
  define px where "px = fst (math_between (room_left r + 2) (room_right r - 2) g1)"
  define py where "py = fst (math_between (room_top r + 2) (room_bottom r - 2) g2)"
  have mr: "math_random g = (g 0, g1)" by (simp add: math_random_def g1_def)
  have bx: "math_between (room_left r + 2) (room_right r - 2) g1 = (px, g2)"
    by (simp add: px_def math_between_eq g1_def g2_def)
  have bz: "math_between (room_top r + 2) (room_bottom r - 2) g2 = (py, g3)"
    by (simp add: py_def math_between_eq g2_def g3_def)
  have r1: "0 \<le> g1 0" "g1 0 < 1" and r2: "0 \<le> g2 0" "g2 0 < 1" and g3: "rng_ok g3"
    using g by (simp_all add: rng_ok_def g1_def g2_def g3_def)
  have "room_left r + 2 \<le> room_right r - 2" using size by (simp add: rd)
  from math_between_range[where g = g1, OF r1 this]
  have rx: "room_left r + 2 \<le> px" "px \<le> room_right r - 1" by (simp_all add: px_def)
  have "room_top r + 2 \<le> room_bottom r - 2" using size by (simp add: rd)
  from math_between_range[where g = g2, OF r2 this]
  have ry: "room_top r + 2 \<le> py" "py \<le> room_bottom r - 1" by (simp_all add: py_def)
  have pp: "place_prop T r (l, g) = weightedRandomize (POT T) px py 1 1 (l, g3)"
    using pot by (simp add: place_prop_def mr bx bz)
  show ?thesis
    apply (rule exI[of _ px], rule exI[of _ py], rule exI[of _ g3])
    using pp g3 rx ry by (simp add: px_def py_def g1_def g2_def)
qed

lemma between_overshoots:
  "fst (math_between 12 14 (\<lambda>n. boundary_draws (Suc n))) = 15"
proof -
  have a: "boundary_draws (Suc 0) * real_of_int (14 - 12 + 1) = (1 - 1 / 2 ^ 52) * 3"
    by (simp add: boundary_draws_def)
  have "fst (math_between 12 14 (\<lambda>n. boundary_draws (Suc n)))
          = \<lfloor>round_double (round_double (boundary_draws (Suc 0) * real_of_int (14 - 12 + 1))
                            + real_of_int 12)\<rfloor>"
    by (simp only: math_between_eq fst_conv)
  also have "\<dots> = \<lfloor>round_double (3 - 1 / 2 ^ 50 + 12)\<rfloor>"
    by (simp only: a product_rounds_down of_int_numeral)
  also have "\<dots> = 15" by (simp only: sum_rounds_up floor_numeral)
  finally show ?thesis .
qed

lemma between_row: "fst (math_between 3 7 (\<lambda>n. boundary_draws (Suc (Suc n)))) = 5"
proof -
  have a: "boundary_draws (Suc (Suc 0)) * real_of_int (7 - 3 + 1) = 1 / 2 * 5"
    by (simp add: boundary_draws_def)
  have "fst (math_between 3 7 (\<lambda>n. boundary_draws (Suc (Suc n))))
          = \<lfloor>round_double (round_double (boundary_draws (Suc (Suc 0)) * real_of_int (7 - 3 + 1))
                            + real_of_int 3)\<rfloor>"
    by (simp only: math_between_eq fst_conv)
  also have "\<dots> = \<lfloor>round_double (5 / 2 + 3)\<rfloor>"
    by (simp only: a half_product of_int_numeral)
  also have "\<dots> = 5" unfolding half_sum by simp
  finally show ?thesis .
qed

text \<open>
  C4 (the pot cell at a boundary draw). The scene asks for a pot column between
  \<open>left + 2\<close> and \<open>right - 2\<close>, so that the pot stays two tiles from every wall. For the
  room at \<open>x = 10\<close> of width 7 that is \<open>Between(12, 14)\<close>, but with the draw
  \<open>1 - 2^-52\<close> the product rounds to \<open>3 - 2^-50\<close> and the sum with 12 rounds up to 15:
  the pot is written at column \<open>15 = right - 1\<close>, next to the right wall, on a cell that
  was empty.
\<close>

theorem pot_beside_wall_at_boundary_draw:
  "rng_ok boundary_draws
   \<and> 1 / 4 < boundary_draws 0 \<and> boundary_draws 0 \<le> 1 / 2
   \<and> room_left example_room7 + 2 = 12 \<and> room_right example_room7 - 2 = 14
   \<and> fst (math_between (room_left example_room7 + 2) (room_right example_room7 - 2)
            (\<lambda>n. boundary_draws (Suc n))) = 15
   \<and> fst (math_between (room_top example_room7 + 2) (room_bottom example_room7 - 2)
            (\<lambda>n. boundary_draws (Suc (Suc n)))) = 5
   \<and> tiles (createBlankLayer 50 50) (15, 5) = - 1
   \<and> tiles (fst (place_prop example_tiles example_room7
                     (createBlankLayer 50 50, boundary_draws))) (15, 5)
        \<in> weighted_indexes (POT example_tiles)
   \<and> weighted_indexes (POT example_tiles) = {13, 32, 51}"
proof -
  have g: "rng_ok boundary_draws" by (simp add: rng_ok_def boundary_draws_def)
  have d: "1 / 4 < boundary_draws 0" "boundary_draws 0 \<le> 1 / 2"
    by (simp_all add: boundary_draws_def)
  have rs: "room_left example_room7 + 2 = 12" "room_right example_room7 - 2 = 14"
    "room_top example_room7 + 2 = 3" "room_bottom example_room7 - 2 = 7"
    by (simp_all add: example_room7_def room_left_def room_right_def room_top_def
        room_bottom_def)
  have px: "fst (math_between (room_left example_room7 + 2) (room_right example_room7 - 2)
            (\<lambda>n. boundary_draws (Suc n))) = 15"
    unfolding rs by (rule between_overshoots)
  have py: "fst (math_between (room_top example_room7 + 2) (room_bottom example_room7 - 2)
            (\<lambda>n. boundary_draws (Suc (Suc n)))) = 5"
    unfolding rs by (rule between_row)
  have sz: "5 \<le> room_width example_room7" "5 \<le> room_height example_room7"
    by (simp_all add: example_room7_def)
  have d': "0.25 < boundary_draws 0" "boundary_draws 0 \<le> 0.5" using d by simp_all
  from place_prop_pot[OF g sz d', of example_tiles "createBlankLayer 50 50"]
  obtain g3 where
    pp: "place_prop example_tiles example_room7 (createBlankLayer 50 50, boundary_draws)
           = weightedRandomize (POT example_tiles) 15 5 1 1 (createBlankLayer 50 50, g3)"
    and g3: "rng_ok g3"
    unfolding px py by blast
  have ok: "weighted_ok (POT example_tiles)" by (simp add: weighted_ok_def example_tiles_def)
  have pot: "tiles (fst (place_prop example_tiles example_room7
                     (createBlankLayer 50 50, boundary_draws))) (15, 5)
        \<in> weighted_indexes (POT example_tiles)"
    unfolding pp using g3
    by (intro weightedRandomize_inside[OF ok])
       (simp_all add: isInLayerBounds_def createBlankLayer_def)
  have e: "tiles (createBlankLayer 50 50) (15, 5) = - 1" by (simp add: createBlankLayer_def)
  have w: "weighted_indexes (POT example_tiles) = {13, 32, 51}"
    by (auto simp: weighted_indexes_def example_tiles_def)
  show ?thesis using g d rs(1,2) px py e pot w by simp
qed

section \<open>Props stay inside their room\<close>

lemma put_row_outside:
  "\<not> (cy = ty \<and> tx \<le> cx \<and> cx < tx + int (length ts))
   \<Longrightarrow> tiles (put_row ts tx ty l) (cx, cy) = tiles l (cx, cy)"
proof (induction ts arbitrary: tx l)
  case Nil
  then show ?case by simp
next
  case (Cons t ts)
  from Cons.prems have "\<not> (cy = ty \<and> tx + 1 \<le> cx \<and> cx < tx + 1 + int (length ts))"
    by auto
  then have "tiles (put_row ts (tx + 1) ty (putTileAt t tx ty l)) (cx, cy)
               = tiles (putTileAt t tx ty l) (cx, cy)"
    by (rule Cons.IH)
  moreover from Cons.prems have "(cx, cy) \<noteq> (tx, ty)" by auto
  ultimately show ?case by (auto simp: putTileAt_tiles)
qed

lemma put_rows_outside:
  "\<not> (ty \<le> cy \<and> cy < ty + int (length rws) \<and> tx \<le> cx \<and> cx < tx + int w)
   \<Longrightarrow> tiles (put_rows w rws tx ty l) (cx, cy) = tiles l (cx, cy)"
proof (induction rws arbitrary: ty l)
  case Nil
  then show ?case by simp
next
  case (Cons rw rws)
  from Cons.prems
  have "\<not> (ty + 1 \<le> cy \<and> cy < ty + 1 + int (length rws) \<and> tx \<le> cx \<and> cx < tx + int w)"
    by auto
  then have "tiles (put_rows w rws tx (ty + 1) (put_row (take w rw) tx ty l)) (cx, cy)
               = tiles (put_row (take w rw) tx ty l) (cx, cy)"
    by (rule Cons.IH)
  moreover from Cons.prems
  have "\<not> (cy = ty \<and> tx \<le> cx \<and> cx < tx + int (length (take w rw)))" by auto
  then have "tiles (put_row (take w rw) tx ty l) (cx, cy) = tiles l (cx, cy)"
    by (rule put_row_outside)
  ultimately show ?case by simp
qed

lemma putTilesAt_outside:
  assumes "length arr \<le> h" "case arr of [] \<Rightarrow> True | row0 # rest \<Rightarrow> length row0 \<le> w"
    and "\<not> (ty \<le> cy \<and> cy < ty + int h \<and> tx \<le> cx \<and> cx < tx + int w)"
  shows "tiles (putTilesAt arr tx ty l) (cx, cy) = tiles l (cx, cy)"
proof (cases arr)
  case Nil
  then show ?thesis by (simp add: putTilesAt_def)
next
  case (Cons row0 rest)
  with assms
  have "\<not> (ty \<le> cy \<and> cy < ty + int (length arr) \<and> tx \<le> cx \<and> cx < tx + int (length row0))"
    by auto
  then have "tiles (put_rows (length row0) arr tx ty l) (cx, cy) = tiles l (cx, cy)"
    by (rule put_rows_outside)
  with Cons show ?thesis by (simp add: putTilesAt_def del: put_rows.simps)
qed

lemma place_prop_rng_ok: "rng_ok (snd lg) \<Longrightarrow> rng_ok (snd (place_prop T r lg))"
proof -
  assume g: "rng_ok (snd lg)"
  have mr: "math_random (snd lg) = (snd lg 0, \<lambda>n. snd lg (Suc n))" by (simp add: math_random_def)
  have g1: "rng_ok (\<lambda>n. snd lg (Suc n))" using g by (simp add: rng_ok_def)
  have g3: "rng_ok (\<lambda>n. snd lg (Suc (Suc (Suc n))))" using g by (simp add: rng_ok_def)
  show ?thesis
    using g1 weightedRandomize_rng_ok[of "(l, \<lambda>n. snd lg (Suc (Suc (Suc n))))" for l] g3
    by (simp add: place_prop_def mr math_between_eq Let_def)
qed

lemma place_prop_outside:
  assumes g: "rng_ok (snd lg)" and size: "5 \<le> room_width r" "5 \<le> room_height r"
    and tw: "tower_fits T" and out: "\<not> in_room r (cx, cy)"
  shows "tiles (fst (place_prop T r lg)) (cx, cy) = tiles (fst lg) (cx, cy)"
proof -
  note rd = room_left_def room_right_def room_top_def room_bottom_def
  obtain l g0 where lg: "lg = (l, g0)" by (cases lg)
  have mr: "math_random g0 = (g0 0, \<lambda>n. g0 (Suc n))" by (simp add: math_random_def)
  have cx: "room_x r + 2 \<le> room_centerX r" "room_centerX r + 2 < room_x r + room_width r"
    using size by (simp_all add: room_centerX_def)
  have cy: "room_y r + 2 \<le> room_centerY r" "room_centerY r + 2 < room_y r + room_height r"
    using size by (simp_all add: room_centerY_def)
  have cy9: "room_centerY r + 3 < room_y r + room_height r" if "9 \<le> room_height r"
    using that by (simp add: room_centerY_def)
  from out have o: "cx < room_x r \<or> room_x r + room_width r \<le> cx
                    \<or> cy < room_y r \<or> room_y r + room_height r \<le> cy"
    by (auto simp: in_room_def rd)
  have th: "length (TOWER T) \<le> 2" "case TOWER T of [] \<Rightarrow> True | row0 # rest \<Rightarrow> length row0 \<le> 1"
    using tw by (simp_all add: tower_fits_def)
  note tower = putTilesAt_outside[OF th]
  consider (chest) "g0 0 \<le> 0.25" | (pot) "0.25 < g0 0" "g0 0 \<le> 0.5"
    | (four) "0.5 < g0 0" "9 \<le> room_height r" | (two) "0.5 < g0 0" "room_height r < 9"
    by linarith
  then show ?thesis
  proof cases
    case chest
    have "(cx, cy) \<noteq> (room_centerX r, room_centerY r)" using o cx cy by auto
    with chest show ?thesis by (auto simp: place_prop_def lg mr putTileAt_tiles)
  next
    case pot
    from place_prop_pot[OF g[unfolded lg snd_conv] size pot, of T l]
    obtain px py g3 where
      pp: "place_prop T r (l, g0) = weightedRandomize (POT T) px py 1 1 (l, g3)"
      and rx: "room_left r + 2 \<le> px" "px \<le> room_right r - 1"
      and ry: "room_top r + 2 \<le> py" "py \<le> room_bottom r - 1"
      by blast
    have "(cx, cy) \<noteq> (px, py)" using o rx ry by (auto simp: rd)
    then have "\<not> (px \<le> fst (cx, cy) \<and> fst (cx, cy) < px + 1 \<and> py \<le> snd (cx, cy)
                  \<and> snd (cx, cy) < py + 1
                  \<and> isInLayerBounds (fst (cx, cy)) (snd (cx, cy)) (fst (l, g3)))"
      by auto
    then show ?thesis unfolding lg pp
      using weightedRandomize_outside[of px "(cx, cy)" 1 py 1 "(l, g3)" "POT T"] by simp
  next
    case four
    have a: "\<not> (room_centerY r + 1 \<le> cy \<and> cy < room_centerY r + 1 + int 2
                 \<and> room_centerX r - 1 \<le> cx \<and> cx < room_centerX r - 1 + int 1)"
      "\<not> (room_centerY r + 1 \<le> cy \<and> cy < room_centerY r + 1 + int 2
                 \<and> room_centerX r + 1 \<le> cx \<and> cx < room_centerX r + 1 + int 1)"
      "\<not> (room_centerY r - 2 \<le> cy \<and> cy < room_centerY r - 2 + int 2
                 \<and> room_centerX r - 1 \<le> cx \<and> cx < room_centerX r - 1 + int 1)"
      "\<not> (room_centerY r - 2 \<le> cy \<and> cy < room_centerY r - 2 + int 2
                 \<and> room_centerX r + 1 \<le> cx \<and> cx < room_centerX r + 1 + int 1)"
      using o cx cy cy9[OF four(2)] by auto
    show ?thesis using four
      by (simp add: place_prop_def lg mr Let_def tower[OF a(1)] tower[OF a(2)] tower[OF a(3)]
          tower[OF a(4)])
  next
    case two
    have a: "\<not> (room_centerY r - 1 \<le> cy \<and> cy < room_centerY r - 1 + int 2
                 \<and> room_centerX r - 1 \<le> cx \<and> cx < room_centerX r - 1 + int 1)"
      "\<not> (room_centerY r - 1 \<le> cy \<and> cy < room_centerY r - 1 + int 2
                 \<and> room_centerX r + 1 \<le> cx \<and> cx < room_centerX r + 1 + int 1)"
      using o cx cy by auto
    show ?thesis using two
      by (simp add: place_prop_def lg mr Let_def tower[OF a(1)] tower[OF a(2)])
  qed
qed

lemma place_props_outside:
  assumes "rng_ok (snd lg)" "\<forall>r \<in> set rs. 5 \<le> room_width r \<and> 5 \<le> room_height r"
    and "tower_fits T" "\<forall>r \<in> set rs. \<not> in_room r (cx, cy)"
  shows "tiles (fst (place_props T rs lg)) (cx, cy) = tiles (fst lg) (cx, cy)"
  using assms(1,2,4) unfolding place_props_def
proof (induction rs arbitrary: lg)
  case Nil
  then show ?case by simp
next
  case (Cons r rs)
  have "tiles (fst (place_prop T r lg)) (cx, cy) = tiles (fst lg) (cx, cy)"
    using Cons.prems assms(3) by (intro place_prop_outside) simp_all
  moreover have "tiles (fst (fold (place_prop T) rs (place_prop T r lg))) (cx, cy)
                   = tiles (fst (place_prop T r lg)) (cx, cy)"
    using Cons.prems by (intro Cons.IH place_prop_rng_ok) simp_all
  ultimately show ?case by simp
qed

lemma in_room_overlaps: "in_room r1 c \<Longrightarrow> in_room r2 c \<Longrightarrow> overlaps r1 r2"
  by (auto simp: in_room_def overlaps_def)

text \<open>
  C5. When the rooms are as the generator makes them (no two overlap, each at least 7
  wide and high and within the dungeon) and a tower is one column of at most two rows,
  \<open>create\<close> returns a scene whose stuff grid holds the stairs index at the centre cell
  of the end room, and every other cell of the end room is still empty (\<open>-1\<close>): the props
  of the prop rooms are written inside their own rooms, and the end room is none of them.
\<close>

theorem stairs_only_in_end_room:
  assumes ok: "dungeon_ok d" and n: "2 \<le> length (rooms d)" and g: "rng_ok g"
    and tw: "tower_fits T"
  shows "\<exists>s' g' e. create T d g s = Inr (s', g')
           \<and> end_room T d g = Some e \<and> e \<in> set (rooms d) \<and> e \<noteq> rooms d ! 0
           \<and> tiles (stuffLayer s') (room_centerX e, room_centerY e) = STAIRS T
           \<and> (\<forall>c. in_room e c \<and> c \<noteq> (room_centerX e, room_centerY e)
                  \<longrightarrow> tiles (stuffLayer s') c = - 1)"
proof -
  let ?blank = "createBlankLayer (dwidth d) (dheight d)"
  from create_returns[OF n g, where T = T and s = s]
  obtain ground1 g1 e props leftover g2 stuff2 g3 s'
    where pr: "paint_rooms T (rooms d) (fill (BLANK T) ?blank, g) = (ground1, g1)"
    and cl: "classify_rooms (rooms d) g1 = ((Some (rooms d ! 0), Some e, props), g2)"
    and part: "mset (rooms d) = mset (rooms d ! 0 # e # props @ leftover)"
    and g2: "rng_ok g2"
    and pp: "place_props T props
           (putTileAt (STAIRS T) (room_centerX e) (room_centerY e) ?blank, g2) = (stuff2, g3)"
    and cr: "create T d g s = Inr (s', g3)"
    and st: "stuffLayer s' = setTileIndexCallback (STAIRS T) ReachStairs
                              (setCollisionByExclusion walkable stuff2)"
    by blast
  let ?stuff1 = "putTileAt (STAIRS T) (room_centerX e) (room_centerY e) ?blank"
  have er: "end_room T d g = Some e" by (simp add: end_room_def pr cl)
  have dist: "distinct (rooms d)"
    and rok: "\<forall>r \<in> set (rooms d). room_ok d r"
    and apart: "\<forall>r1 \<in> set (rooms d). \<forall>r2 \<in> set (rooms d). r1 = r2 \<or> \<not> overlaps r1 r2"
    using ok by (simp_all add: dungeon_ok_def list_all_iff)
  from part dist have "distinct (rooms d ! 0 # e # props @ leftover)"
    by (metis mset_eq_imp_distinct_iff)
  then have ne: "e \<noteq> rooms d ! 0" and enp: "e \<notin> set props" by auto
  have sets: "set (rooms d) = set (rooms d ! 0 # e # props @ leftover)"
    using part by (rule mset_eq_setD)
  then have e_in: "e \<in> set (rooms d)" and p_in: "set props \<subseteq> set (rooms d)" by auto
  have e_ok: "room_ok d e" using rok e_in by blast
  have psize: "\<forall>r \<in> set props. 5 \<le> room_width r \<and> 5 \<le> room_height r"
  proof
    fix r assume "r \<in> set props"
    with p_in rok have "room_ok d r" by blast
    then show "5 \<le> room_width r \<and> 5 \<le> room_height r" by (simp add: room_ok_def)
  qed
  have t2: "tiles (stuffLayer s') = tiles stuff2"
    by (simp add: st setTileIndexCallback_def setCollisionByExclusion_cells)
  have keep: "tiles stuff2 (cx, cy) = tiles ?stuff1 (cx, cy)" if c: "in_room e (cx, cy)" for cx cy
  proof -
    have "\<forall>r \<in> set props. \<not> in_room r (cx, cy)"
    proof
      fix r assume r: "r \<in> set props"
      with enp have "r \<noteq> e" by auto
      moreover from r p_in have "r \<in> set (rooms d)" by auto
      ultimately have "\<not> overlaps r e" using apart e_in by blast
      with c show "\<not> in_room r (cx, cy)" using in_room_overlaps by blast
    qed
    then have "tiles (fst (place_props T props (?stuff1, g2))) (cx, cy)
                 = tiles (fst (?stuff1, g2)) (cx, cy)"
      using g2 psize tw by (intro place_props_outside) simp_all
    then show ?thesis by (simp add: pp)
  qed
  have cin: "in_room e (room_centerX e, room_centerY e)"
    using e_ok unfolding in_room_def room_ok_def room_left_def room_right_def room_top_def
        room_bottom_def room_centerX_def room_centerY_def fst_conv snd_conv
    by presburger
  have cb: "isInLayerBounds (room_centerX e) (room_centerY e) ?blank"
    using e_ok unfolding isInLayerBounds_def room_ok_def room_centerX_def room_centerY_def
    by (simp add: createBlankLayer_def; presburger)
  have stairs: "tiles (stuffLayer s') (room_centerX e, room_centerY e) = STAIRS T"
    using keep[OF cin] cb by (simp add: t2 putTileAt_tiles)
  have others: "tiles (stuffLayer s') c = - 1"
    if "in_room e c \<and> c \<noteq> (room_centerX e, room_centerY e)" for c
  proof -
    obtain cx cy where c: "c = (cx, cy)" by (cases c)
    with that have "tiles stuff2 (cx, cy) = tiles ?stuff1 (cx, cy)" by (intro keep) simp
    moreover have "tiles ?stuff1 (cx, cy) = - 1"
      using that c by (auto simp: putTileAt_tiles createBlankLayer_def)
    ultimately show ?thesis by (simp add: t2 c)
  qed
  show ?thesis
    apply (rule exI[of _ s'], rule exI[of _ g3], rule exI[of _ e])
    using cr er e_in ne stairs others by blast
qed

theorem stairs_only_in_end_room_witness:
  "dungeon_ok example_dungeon \<and> 2 \<le> length (rooms example_dungeon) \<and> rng_ok (\<lambda>n. 1 / 2)
   \<and> tower_fits example_tiles
   \<and> (\<exists>s' g' e. create example_tiles example_dungeon (\<lambda>n. 1 / 2) example_scene = Inr (s', g')
           \<and> end_room example_tiles example_dungeon (\<lambda>n. 1 / 2) = Some e
           \<and> e \<in> set (rooms example_dungeon) \<and> e \<noteq> rooms example_dungeon ! 0
           \<and> tiles (stuffLayer s') (room_centerX e, room_centerY e) = STAIRS example_tiles
           \<and> (\<forall>c. in_room e c \<and> c \<noteq> (room_centerX e, room_centerY e)
                  \<longrightarrow> tiles (stuffLayer s') c = - 1))"
proof -
  have h1: "dungeon_ok example_dungeon"
    by (simp add: dungeon_ok_def example_dungeon_def example_room7_def room_ok_def overlaps_def
        room_left_def room_right_def room_top_def room_bottom_def)
  have h2: "2 \<le> length (rooms example_dungeon)" by (simp add: example_dungeon_def)
  have h3: "rng_ok (\<lambda>n. 1 / 2)" by (simp add: rng_ok_def)
  have h4: "tower_fits example_tiles" by (simp add: tower_fits_def example_tiles_def)
  note c = stairs_only_in_end_room[OF h1 h2 h3 h4, of example_scene]
  show ?thesis by (rule conjI[OF h1 conjI[OF h2 conjI[OF h3 conjI[OF h4 c]]]])
qed

end
